theory Spec2Isabelle
  imports Main "HOL-Library.AList" "HOL-Library.Char_ord" "HOL-Library.List_Lexorder"
    "HOL-Library.Product_Lexorder"
begin

section \<open>Strings and numbers of the host language\<close>

text \<open>
  The converter is TypeScript. A string is modelled as a \<^typ>\<open>string\<close>, the list of its
  code units, for the code units below 256: there a code unit is a character, and the
  order of the code units is the order of the bytes the database compares.

  A number is an IEEE double. The model has the integer-valued doubles, the two
  infinities and NaN: the converter reads lines and columns, subtracts one and calls
  \<open>parseInt\<close>. \<open>Num i\<close> stands for the double of value \<open>i\<close>; rounding an exact integer
  to the nearest double is \<open>toNumber\<close>.
\<close>

datatype number = NaN | Infinity | NegInfinity | Num int

definition digitChar :: "nat \<Rightarrow> char" where
  "digitChar d = char_of (48 + d)"

fun show_nat :: "nat \<Rightarrow> string" where
  "show_nat n = (if n < 10 then [digitChar n] else show_nat (n div 10) @ [digitChar (n mod 10)])"

declare show_nat.simps [simp del]

text \<open>The number of binary digits of a natural number.\<close>

fun bitlen :: "nat \<Rightarrow> nat" where
  "bitlen n = (if n = 0 then 0 else Suc (bitlen (n div 2)))"

declare bitlen.simps [simp del]

text \<open>
  The nearest natural number with at most 53 significant binary digits, a tie going to
  the even significand: the magnitude of the nearest double, as long as it is finite.
\<close>

definition roundDouble :: "nat \<Rightarrow> nat" where
  "roundDouble a =
     (if bitlen a \<le> 53 then a
      else
        let e = bitlen a - 53; q = a div 2 ^ e; r = a mod 2 ^ e; half = 2 ^ (e - 1)
        in (if half < r \<or> (r = half \<and> odd q) then q + 1 else q) * 2 ^ e)"

text \<open>The double nearest to an integer; from \<open>2^1024\<close> on it is an infinity.\<close>

definition toNumber :: "int \<Rightarrow> number" where
  "toNumber i =
     (let m = roundDouble (nat \<bar>i\<bar>)
      in if 1024 < bitlen m then (if i < 0 then NegInfinity else Infinity)
         else Num (if i < 0 then - int m else int m))"

definition Number_subtract :: "number \<Rightarrow> int \<Rightarrow> number" where
  "Number_subtract n k =
     (case n of
        NaN \<Rightarrow> NaN
      | Infinity \<Rightarrow> Infinity
      | NegInfinity \<Rightarrow> NegInfinity
      | Num i \<Rightarrow> toNumber (i - k))"

text \<open>
  The string a template literal \<open>`${n}`\<close> produces for a number. The digits printed are
  those of the decimal number with the fewest significant digits that still rounds to
  the double, the nearest one if there are several: \<open>near x k\<close> is the two decimal
  numbers with at most \<open>k\<close> significant digits around \<open>x\<close>, nearest first, and seventeen
  digits always suffice. Up to twenty-one digits are printed in full; a longer number
  is printed with an exponent, as in \<open>1e+21\<close> and \<open>1.5e+21\<close>.
\<close>

definition near :: "nat \<Rightarrow> nat \<Rightarrow> nat list" where
  "near x k =
     (let p = 10 ^ (length (show_nat x) - k); lo = (x div p) * p; hi = lo + p
      in if x - lo < hi - x \<or> (x - lo = hi - x \<and> even (x div p)) then [lo, hi] else [hi, lo])"

definition shortest :: "nat \<Rightarrow> nat" where
  "shortest x =
     (case find (\<lambda>v. roundDouble v = x) (concat (map (near x) [1..<18])) of
        Some v \<Rightarrow> v
      | None \<Rightarrow> x)"

definition show_double :: "nat \<Rightarrow> string" where
  "show_double x =
     (let digits = show_nat (shortest x); n = length digits
      in if n \<le> 21 then digits
         else
           let s = rev (dropWhile (\<lambda>c. c = CHR ''0'') (rev digits))
           in (case s of
                 [] \<Rightarrow> []
               | d # ds \<Rightarrow> if ds = [] then [d] else d # CHR ''.'' # ds)
                @ ''e+'' @ show_nat (n - 1))"

definition Number_toString :: "number \<Rightarrow> string" where
  "Number_toString n =
     (case n of
        NaN \<Rightarrow> ''NaN''
      | Infinity \<Rightarrow> ''Infinity''
      | NegInfinity \<Rightarrow> ''-Infinity''
      | Num i \<Rightarrow> (if i < 0 then CHR ''-'' # show_double (nat (- i)) else show_double (nat i)))"

text \<open>The white space and line terminators below 256.\<close>

definition isWhiteSpace :: "char \<Rightarrow> bool" where
  "isWhiteSpace c = (c = CHR '' '' \<or> c = CHR 0x09 \<or> c = CHR 0x0A \<or> c = CHR 0x0B
                     \<or> c = CHR 0x0C \<or> c = CHR 0x0D \<or> c = CHR 0xA0)"

definition isDigit :: "char \<Rightarrow> bool" where
  "isDigit c = (48 \<le> (of_char c :: nat) \<and> (of_char c :: nat) \<le> 57)"

definition digitVal :: "char \<Rightarrow> int" where
  "digitVal c = int (of_char c) - 48"

definition decimalValue :: "string \<Rightarrow> int" where
  "decimalValue Z = foldl (\<lambda>a c. 10 * a + digitVal c) 0 Z"

text \<open>
  \<open>parseInt(s, 10)\<close>: leading white space is skipped, one sign is read, then the
  longest run of decimal digits; no digit at all gives NaN, and otherwise the result is
  the double nearest to the integer the digits denote. Whatever follows the digits is
  ignored.
\<close>

definition parseInt :: "string \<Rightarrow> number" where
  "parseInt s =
     (let S = dropWhile isWhiteSpace s;
          sign = (if S \<noteq> [] \<and> hd S = CHR ''-'' then - 1 else 1);
          S' = (if S \<noteq> [] \<and> (hd S = CHR ''+'' \<or> hd S = CHR ''-'') then tl S else S);
          Z = takeWhile isDigit S'
      in if Z = [] then NaN else toNumber (sign * decimalValue Z))"

text \<open>\<open>value.split(c)\<close> for a one-character separator: the result is never empty.\<close>

fun split :: "char \<Rightarrow> string \<Rightarrow> string list" where
  "split c [] = [[]]"
| "split c (x # xs) =
     (if x = c then [] # split c xs
      else (case split c xs of [] \<Rightarrow> [[x]] | y # ys \<Rightarrow> (x # y) # ys))"

section \<open>Locations\<close>

datatype error =
    ParseError string
  | SameFileError string string
  | LookupError string
  | EmptyInputError string

record Position =
  line :: number
  character :: number

record lsp_Range =
  start :: Position
  end' :: Position

record Location =
  uri :: string
  range' :: lsp_Range

record FilePosition =
  uri :: string
  position :: Position

definition stringifyLocation :: "Location \<Rightarrow> string" where
  "stringifyLocation loc =
     Location.uri loc @ '':'' @ Number_toString (line (lsp_Range.start (range' loc)))
       @ '':'' @ Number_toString (character (lsp_Range.start (range' loc)))"

definition parseFilePosition :: "string \<Rightarrow> error + FilePosition" where
  "parseFilePosition value =
     (let components = split CHR '':'' value in
      if length components < 3 then Inl (ParseError value)
      else
        let line = parseInt (components ! (length components - 2));
            character = parseInt (components ! (length components - 1));
            path = concat (take (length components - 2) components)
        in Inr \<lparr>FilePosition.uri = path,
                 position = \<lparr>line = line, character = character\<rparr>\<rparr>)"

definition parseLocation :: "string \<Rightarrow> string \<Rightarrow> error + Location" where
  "parseLocation startStr endStr =
     (case parseFilePosition startStr of
        Inl e \<Rightarrow> Inl e
      | Inr startP \<Rightarrow>
          (case parseFilePosition endStr of
             Inl e \<Rightarrow> Inl e
           | Inr endP \<Rightarrow>
               if FilePosition.uri startP \<noteq> FilePosition.uri endP
               then Inl (SameFileError startStr endStr)
               else Inr \<lparr>Location.uri = FilePosition.uri startP,
                        range' = \<lparr>lsp_Range.start = position startP,
                                  lsp_Range.end' = position endP\<rparr>\<rparr>))"

definition stringifyStringLocation :: "string \<Rightarrow> string \<Rightarrow> string" where
  "stringifyStringLocation uri' start' = uri' @ '':'' @ start'"

record Pos_ =
  line :: number
  col :: number

definition stringifyPosition :: "Pos_ \<Rightarrow> string" where
  "stringifyPosition pos =
     Number_toString (Pos_.line pos) @ '':'' @ Number_toString (col pos)"

section \<open>Sets, maps and objects in insertion order\<close>

text \<open>
  A \<open>Set\<close> is the list of its elements and a \<open>Map\<close> the list of its entries, both in
  insertion order, which is the order \<open>Array.from\<close> returns. \<open>Map.get\<close> is
  \<^const>\<open>map_of\<close> and \<open>Map.set\<close> is \<^const>\<open>AList.update\<close>: an existing key keeps its
  place, a new key goes to the end.
\<close>

definition Set_add :: "'a \<Rightarrow> 'a list \<Rightarrow> 'a list" where
  "Set_add x s = (if x \<in> set s then s else s @ [x])"

text \<open>
  \<open>groupBy\<close> of lodash builds a plain object: each value is appended to the array under
  the key its iteratee returns. The iteratee may throw, which ends the grouping.
\<close>

fun groupBy_loop ::
  "'a list \<Rightarrow> ('a \<Rightarrow> error + string) \<Rightarrow> (string \<times> 'a list) list
     \<Rightarrow> error + (string \<times> 'a list) list" where
  "groupBy_loop [] iteratee result = Inr result"
| "groupBy_loop (v # rest) iteratee result =
     (case iteratee v of
        Inl e \<Rightarrow> Inl e
      | Inr key \<Rightarrow>
          groupBy_loop rest iteratee
            (case map_of result key of
               Some vs \<Rightarrow> AList.update key (vs @ [v]) result
             | None \<Rightarrow> result @ [(key, [v])]))"

definition groupBy ::
  "'a list \<Rightarrow> ('a \<Rightarrow> error + string) \<Rightarrow> error + (string \<times> 'a list) list" where
  "groupBy array iteratee = groupBy_loop array iteratee []"

text \<open>
  The keys of a plain object are enumerated with the array indices first (canonical
  decimal numerals below \<open>2^32 - 1\<close>), in ascending order, then the other keys in
  creation order. \<open>toPairs\<close> returns the entries in that order.
\<close>

definition isArrayIndex :: "string \<Rightarrow> bool" where
  "isArrayIndex k =
     (k \<noteq> [] \<and> list_all isDigit k \<and> show_nat (nat (decimalValue k)) = k
      \<and> decimalValue k < 4294967295)"

definition toPairs :: "(string \<times> 'a) list \<Rightarrow> (string \<times> 'a) list" where
  "toPairs obj =
     sort_key (\<lambda>p. decimalValue (fst p)) (filter (\<lambda>p. isArrayIndex (fst p)) obj)
       @ filter (\<lambda>p. \<not> isArrayIndex (fst p)) obj"

section \<open>The emitted items\<close>

datatype EventKind = EventKind_begin | EventKind_end

datatype EventScope = EventScope_document | EventScope_project

datatype MonikerKind = MonikerKind_import | MonikerKind_export

datatype ItemEdgeProperties = ItemEdgeProperties_definitions | ItemEdgeProperties_references

text \<open>
  One constructor for each vertex label and each edge label the converter emits; the
  constructor stands for the fields \<open>type\<close> and \<open>label\<close>. The first field is always the
  id; an edge then has \<open>outV\<close> followed by \<open>inV\<close> or \<open>inVs\<close>.
\<close>

datatype lsif_item =
    V_metaData (item_id: string) string string string string "string list" string
  | V_project (item_id: string) string
  | V_event (item_id: string) string EventKind EventScope
  | V_document (item_id: string) string string string
  | V_range (item_id: string) Position Position
  | V_resultSet (item_id: string)
  | V_moniker (item_id: string) string MonikerKind string
  | V_packageInformation (item_id: string) string string string
  | V_definitionResult (item_id: string)
  | V_hoverResult (item_id: string) string
  | V_referenceResult (item_id: string)
  | E_contains (item_id: string) string "string list"
  | E_next (item_id: string) string string
  | E_moniker (item_id: string) string string
  | E_packageInformation (item_id: string) string string
  | E_textDocument_definition (item_id: string) string string
  | E_textDocument_hover (item_id: string) string string
  | E_textDocument_references (item_id: string) string string
  | E_item (item_id: string) string "string list" "ItemEdgeProperties option" string

section \<open>Emission\<close>

text \<open>
  \<open>emit\<close> appends one item to the output and an exception ends the run, leaving what
  was emitted before it. A piece of the engine is therefore the list of items it emits
  together with the error that stopped it, if any.
\<close>

type_synonym emission = "lsif_item list \<times> error option"

definition emit :: "lsif_item \<Rightarrow> emission" where
  "emit x = ([x], None)"

definition throw :: "error \<Rightarrow> emission" where
  "throw e = ([], Some e)"

text \<open>Statements in sequence: the first one that throws ends the sequence.\<close>

fun seqs :: "emission list \<Rightarrow> emission" where
  "seqs [] = ([], None)"
| "seqs (e # es) =
     (case snd e of
        Some err \<Rightarrow> e
      | None \<Rightarrow> (fst e @ fst (seqs es), snd (seqs es)))"

definition for_each :: "('a \<Rightarrow> emission) \<Rightarrow> 'a list \<Rightarrow> emission" where
  "for_each body xs = seqs (map body xs)"

definition makeMeta :: "string \<Rightarrow> string \<Rightarrow> lsif_item" where
  "makeMeta root inFileGlob =
     V_metaData ''meta'' ''file:///'' ''0.4.0'' ''utf-16'' ''lsif-cpp'' [inFileGlob, root] ''dev''"

definition makeProject :: lsif_item where
  "makeProject = V_project ''project'' ''cpp''"

definition makeProjectBegin :: lsif_item where
  "makeProjectBegin = V_event ''projectBegin'' ''project'' EventKind_begin EventScope_project"

definition makeProjectEnd :: lsif_item where
  "makeProjectEnd = V_event ''projectEnd'' ''project'' EventKind_end EventScope_project"

definition makeRange :: "Location \<Rightarrow> lsif_item" where
  "makeRange loc =
     V_range (stringifyLocation loc) (lsp_Range.start (range' loc)) (lsp_Range.end' (range' loc))"

text \<open>\<open>includeContents\<close> is never passed, so the contents are the empty string.\<close>

definition emitDocsBegin :: "string \<Rightarrow> string \<Rightarrow> emission" where
  "emitDocsBegin root doc =
     seqs [
       emit (V_document (''document:'' @ doc) (''file:///'' @ doc) ''cpp'' []),
       emit (V_event (''documentBegin:'' @ doc) (''document:'' @ doc)
               EventKind_begin EventScope_document)]"

definition emitDocsEnd :: "string list \<Rightarrow> (string \<times> string list) list \<Rightarrow> emission" where
  "emitDocsEnd docs rangesByDoc =
     for_each (\<lambda>doc.
       case map_of rangesByDoc doc of
         None \<Rightarrow> throw (LookupError doc)
       | Some ranges \<Rightarrow>
           seqs [
             emit (E_contains (''contains:'' @ doc) (''document:'' @ doc) ranges),
             emit (V_event (''documentEnd:'' @ doc) (''document:'' @ doc)
                     EventKind_end EventScope_document)]) docs"

record moniker_entry =
  moniker :: string
  packageInformation :: string

text \<open>
  The body of the loop of \<open>emitDefsRefsHovers\<close>, for one entry of \<open>refsByDef\<close>, is
  \<open>emitDefsRefsHovers_entry\<close>. Its blocks are given first, under the numbers they have in
  the comments of the source.
\<close>

text \<open>2.1 to 2.4: the import moniker.\<close>

definition emitImportMoniker :: "string \<Rightarrow> moniker_entry \<Rightarrow> emission" where
  "emitImportMoniker def importMoniker =
     seqs [
       emit (V_moniker (''moniker:import:'' @ def) (moniker importMoniker)
               MonikerKind_import ''cpp''),
       emit (E_moniker (''monikerEdge:import:'' @ def) (''resultSet:'' @ def)
               (''moniker:import:'' @ def)),
       emit (V_packageInformation (''package:'' @ packageInformation importMoniker) ''cpp''
               (packageInformation importMoniker) ''1.0''),
       emit (E_packageInformation (''packageEdge:'' @ packageInformation importMoniker)
               (''moniker:import:'' @ def)
               (''package:'' @ packageInformation importMoniker))]"

text \<open>3 to 5: the definition result.\<close>

definition emitDefinitionResult :: "string \<Rightarrow> Location \<Rightarrow> emission" where
  "emitDefinitionResult def defLoc =
     seqs [
       emit (V_definitionResult (''definition:'' @ def)),
       emit (E_textDocument_definition (''textDocument/definition:'' @ def)
               (''resultSet:'' @ def) (''definition:'' @ def)),
       emit (E_item (''item:textDocument/definition:'' @ def) (''definition:'' @ def) [def]
               None (''document:'' @ Location.uri defLoc))]"

text \<open>The hover result, under \<open>if (hover)\<close>: an empty string is falsy.\<close>

definition emitHover :: "string \<Rightarrow> string option \<Rightarrow> emission" where
  "emitHover def hover =
     (case hover of
        None \<Rightarrow> seqs []
      | Some h \<Rightarrow>
          if h \<noteq> [] then
            seqs [
              emit (V_hoverResult (''hover:'' @ def) h),
              emit (E_textDocument_hover (''textDocument/hover:'' @ def)
                      (''resultSet:'' @ def) (''hover:'' @ def))]
          else seqs [])"

text \<open>10: one item edge for each group of references with the same parsed path.\<close>

definition emitReferenceItems :: "string \<Rightarrow> string list \<Rightarrow> emission" where
  "emitReferenceItems def refs =
     (case groupBy refs (\<lambda>ref. map_sum id FilePosition.uri (parseFilePosition ref)) of
        Inl e \<Rightarrow> throw e
      | Inr grouped \<Rightarrow>
          for_each (\<lambda>pair.
            emit (E_item
                    (''item:textDocument/references:references:'' @ def @ '':'' @ fst pair)
                    (''reference:'' @ def) (snd pair)
                    (Some ItemEdgeProperties_references)
                    (''document:'' @ fst pair))) (toPairs grouped))"

text \<open>11 to 14: the export moniker.\<close>

definition emitExportMoniker :: "string \<Rightarrow> moniker_entry \<Rightarrow> emission" where
  "emitExportMoniker def exportMoniker =
     seqs [
       emit (V_moniker (''moniker:export:'' @ def) (moniker exportMoniker)
               MonikerKind_export ''cpp''),
       emit (E_moniker (''monikerEdge:export:'' @ def) (''resultSet:'' @ def)
               (''moniker:export:'' @ def)),
       emit (V_packageInformation (''package:'' @ packageInformation exportMoniker) ''cpp''
               (packageInformation exportMoniker) ''1.0''),
       emit (E_packageInformation (''packageEdge:'' @ packageInformation exportMoniker)
               (''moniker:export:'' @ def)
               (''package:'' @ packageInformation exportMoniker))]"

definition emitDefsRefsHovers_entry ::
  "(string \<times> string) list \<Rightarrow> (string \<times> Location) list
     \<Rightarrow> (string \<times> moniker_entry) list \<Rightarrow> (string \<times> moniker_entry) list
     \<Rightarrow> string \<times> string list \<Rightarrow> emission" where
  "emitDefsRefsHovers_entry hoverByDef locByRange importMonikerByRange exportMonikerByRange entry =
     (let def = fst entry; refs = snd entry in
      case map_of locByRange def of
        None \<Rightarrow> throw (LookupError def)
      | Some defLoc \<Rightarrow>
          seqs [
            emit (V_resultSet (''resultSet:'' @ def)),
            emit (E_next (''next:'' @ def) def (''resultSet:'' @ def)),
            (case map_of importMonikerByRange def of
               Some importMoniker \<Rightarrow> emitImportMoniker def importMoniker
             | None \<Rightarrow> emitDefinitionResult def defLoc),
            emitHover def (map_of hoverByDef def),
            emit (V_referenceResult (''reference:'' @ def)),
            emit (E_textDocument_references (''textDocument/references:'' @ def)
                    (''resultSet:'' @ def) (''reference:'' @ def)),
            (case map_of importMonikerByRange def of
               Some importMoniker \<Rightarrow> seqs []
             | None \<Rightarrow>
                 emit (E_item (''item:textDocument/references:definitions:'' @ def)
                         (''reference:'' @ def) [def] (Some ItemEdgeProperties_definitions)
                         (''document:'' @ Location.uri defLoc))),
            for_each (\<lambda>ref.
              emit (E_next (''next:'' @ ref) ref (''resultSet:'' @ def))) refs,
            emitReferenceItems def refs,
            (case map_of exportMonikerByRange def of
               Some exportMoniker \<Rightarrow> emitExportMoniker def exportMoniker
             | None \<Rightarrow> seqs [])])"

definition emitDefsRefsHovers ::
  "(string \<times> string list) list \<Rightarrow> (string \<times> string) list \<Rightarrow> (string \<times> Location) list
     \<Rightarrow> (string \<times> moniker_entry) list \<Rightarrow> (string \<times> moniker_entry) list \<Rightarrow> emission" where
  "emitDefsRefsHovers refsByDef hoverByDef locByRange importMonikerByRange exportMonikerByRange =
     for_each
       (emitDefsRefsHovers_entry hoverByDef locByRange importMonikerByRange exportMonikerByRange)
       refsByDef"

record ffff_args =
  root :: string
  inFileGlob :: string
  docs :: "string list"
  rangesByDoc :: "(string \<times> string list) list"
  refsByDef :: "(string \<times> string list) list"
  hoverByDef :: "(string \<times> string) list"
  locByRange :: "(string \<times> Location) list"
  importMonikerByRange :: "(string \<times> moniker_entry) list"
  exportMonikerByRange :: "(string \<times> moniker_entry) list"

definition ffff :: "ffff_args \<Rightarrow> emission" where
  "ffff a =
     seqs [
       emit (makeMeta (root a) (inFileGlob a)),
       emit makeProject,
       emit makeProjectBegin,
       for_each (emitDocsBegin (root a)) (docs a),
       for_each (\<lambda>range.
         case map_of (locByRange a) range of
           None \<Rightarrow> throw (LookupError range)
         | Some loc \<Rightarrow> emit (makeRange loc)) (map fst (locByRange a)),
       emitDefsRefsHovers (refsByDef a) (hoverByDef a) (locByRange a)
         (importMonikerByRange a) (exportMonikerByRange a),
       emitDocsEnd (docs a) (rangesByDoc a),
       emit (E_contains ''projectContains'' ''project''
               (map (\<lambda>doc. ''document:'' @ doc) (docs a))),
       emit makeProjectEnd]"

section \<open>Reading the input and building the index\<close>

text \<open>
  \<open>writeLSIF\<close> reads every input file into the table \<open>lines\<close>, derives the sets and
  maps of the index from two queries on it, and hands them to \<open>ffff\<close>. An input file is
  given here by its \<open>sourceFile\<close> and its parsed lines that have a \<open>start\<close> field.
\<close>

record definition_ref =
  file' :: string
  pos :: Pos_

record in_line =
  start :: Pos_
  end' :: Pos_
  definition' :: definition_ref
  type' :: "string option"

record lines_row =
  file' :: string
  start :: string
  end' :: string
  deffile :: string
  defstart :: string
  type' :: string

definition line_deffile :: "string \<Rightarrow> in_line \<Rightarrow> string" where
  "line_deffile sourceFile l =
     (if definition_ref.file' (definition' l) = ''*buffer*'' then sourceFile
      else definition_ref.file' (definition' l))"

definition startsWith :: "string \<Rightarrow> string \<Rightarrow> bool" where
  "startsWith s p = (take (length p) s = p)"

text \<open>The row a line becomes: lines count from 1 in the input and from 0 in the table.\<close>

definition line_row :: "string \<Rightarrow> in_line \<Rightarrow> lines_row" where
  "line_row sourceFile l =
     \<lparr>file' = sourceFile,
      start = stringifyPosition
        ((in_line.start l)\<lparr>Pos_.line := Number_subtract (Pos_.line (in_line.start l)) 1\<rparr>),
      end' = stringifyPosition
        ((in_line.end' l)\<lparr>Pos_.line := Number_subtract (Pos_.line (in_line.end' l)) 1\<rparr>),
      deffile = line_deffile sourceFile l,
      defstart = stringifyPosition
        ((pos (definition' l))\<lparr>Pos_.line := Number_subtract (Pos_.line (pos (definition' l))) 1\<rparr>),
      type' = take 200
        (case in_line.type' l of
           None \<Rightarrow> ''<unknown>''
         | Some t \<Rightarrow> if t \<noteq> [] then t else ''<unknown>'')\<rparr>"

definition file_rows :: "string \<Rightarrow> in_line list \<Rightarrow> lines_row list" where
  "file_rows sourceFile ls =
     map (line_row sourceFile)
       (filter (\<lambda>l. \<not> startsWith (line_deffile sourceFile l) ''/'') ls)"

text \<open>
  \<open>INSERT OR REPLACE\<close> under \<open>UNIQUE (file, start, end)\<close>: a row with the same three
  columns is deleted before the new row is added.
\<close>

definition insert_or_replace :: "lines_row \<Rightarrow> lines_row list \<Rightarrow> lines_row list" where
  "insert_or_replace r tbl =
     filter (\<lambda>x. \<not> (lines_row.file' x = lines_row.file' r \<and> lines_row.start x = lines_row.start r
                       \<and> lines_row.end' x = lines_row.end' r)) tbl @ [r]"

definition insertMany :: "lines_row list \<Rightarrow> lines_row list \<Rightarrow> lines_row list" where
  "insertMany rows tbl = fold insert_or_replace rows tbl"

text \<open>
  The two queries, as the database runs them. The \<open>UNIQUE\<close> constraint comes with an
  index on \<open>(file, start, end)\<close>, which holds the rows in the order of these three
  columns, compared as text. The first part of the first query and the second query
  read the rows through that index; the second part of the first query reads the table
  in the order of insertion, a replaced row counting as a new one. \<open>DISTINCT\<close> keeps the
  first of several equal rows.
\<close>

definition index_order :: "lines_row list \<Rightarrow> lines_row list" where
  "index_order tbl =
     sort_key (\<lambda>r. (lines_row.file' r, lines_row.start r, lines_row.end' r)) tbl"

definition select_distinct :: "'a list \<Rightarrow> 'a list" where
  "select_distinct rows = rev (remdups (rev rows))"

definition select_ranges :: "lines_row list \<Rightarrow> (string \<times> string \<times> string) list" where
  "select_ranges tbl =
     select_distinct
       (map (\<lambda>r. (lines_row.file' r, lines_row.start r, lines_row.end' r)) (index_order tbl))
       @ select_distinct (map (\<lambda>r. (deffile r, defstart r, defstart r)) tbl)"

definition select_links ::
  "lines_row list \<Rightarrow> (string \<times> string \<times> string \<times> string \<times> string) list" where
  "select_links tbl =
     select_distinct
       (map (\<lambda>r. (lines_row.file' r, lines_row.start r, deffile r, defstart r,
                    lines_row.type' r)) (index_order tbl))"

text \<open>The first loop of \<open>writeLSIF\<close>: documents, ranges of each document, locations.\<close>

fun collect_ranges :: "(string \<times> string \<times> string) list \<Rightarrow> ffff_args \<Rightarrow> error + ffff_args" where
  "collect_ranges [] ix = Inr ix"
| "collect_ranges ((hfile, hstart, hend) # rest) ix =
     (let ranges = (case map_of (rangesByDoc ix) hfile of None \<Rightarrow> [] | Some rs \<Rightarrow> rs);
          startKey = stringifyStringLocation hfile hstart
      in case parseLocation (hfile @ '':'' @ hstart) (hfile @ '':'' @ hend) of
           Inl e \<Rightarrow> Inl e
         | Inr loc \<Rightarrow>
             collect_ranges rest
               (ix\<lparr>docs := Set_add hfile (docs ix),
                   rangesByDoc := AList.update hfile (Set_add startKey ranges) (rangesByDoc ix),
                   locByRange := AList.update startKey loc (locByRange ix)\<rparr>))"

text \<open>The second loop: the references of each definition and its hover text.\<close>

fun collect_links ::
  "(string \<times> string \<times> string \<times> string \<times> string) list \<Rightarrow> ffff_args \<Rightarrow> ffff_args" where
  "collect_links [] ix = ix"
| "collect_links ((hfile, hstart, hdeffile, hdefstart, htype) # rest) ix =
     (let therefstart = stringifyStringLocation hfile hstart;
          thedefstart = stringifyStringLocation hdeffile hdefstart;
          refs = (case map_of (refsByDef ix) thedefstart of None \<Rightarrow> [] | Some rs \<Rightarrow> rs)
      in collect_links rest
           (ix\<lparr>refsByDef := AList.update thedefstart (Set_add therefstart refs) (refsByDef ix),
               hoverByDef := AList.update thedefstart htype (hoverByDef ix)\<rparr>))"

text \<open>The index the two loops build from the table.\<close>

definition buildIndex :: "string \<Rightarrow> string \<Rightarrow> lines_row list \<Rightarrow> error + ffff_args" where
  "buildIndex root' inFileGlob' tbl =
     (case collect_ranges (select_ranges tbl)
             \<lparr>root = root', inFileGlob = inFileGlob', docs = [], rangesByDoc = [],
              refsByDef = [], hoverByDef = [], locByRange = [],
              importMonikerByRange = [], exportMonikerByRange = []\<rparr> of
        Inl e \<Rightarrow> Inl e
      | Inr ix \<Rightarrow> Inr (collect_links (select_links tbl) ix))"

text \<open>What \<open>writeLSIF\<close> does once the table is filled.\<close>

definition writeLSIF_table :: "string \<Rightarrow> string \<Rightarrow> lines_row list \<Rightarrow> emission" where
  "writeLSIF_table root' inFileGlob' tbl =
     (case buildIndex root' inFileGlob' tbl of
        Inl e \<Rightarrow> throw e
      | Inr ix \<Rightarrow> ffff ix)"

definition readInput :: "(string \<times> in_line list) list \<Rightarrow> lines_row list" where
  "readInput inFiles =
     fold (\<lambda>inFile. insertMany (file_rows (fst inFile) (snd inFile))) inFiles []"

definition writeLSIF :: "string \<Rightarrow> string \<Rightarrow> (string \<times> in_line list) list \<Rightarrow> emission" where
  "writeLSIF root' inFileGlob' inFiles =
     (if inFiles = [] then throw (EmptyInputError inFileGlob')
      else writeLSIF_table root' inFileGlob' (readInput inFiles))"

section \<open>A small index\<close>

text \<open>
  Two documents, entered as \<open>b\<close> then \<open>a\<close>. The definition at \<open>a:0:0\<close> is referenced
  from \<open>b:1:0\<close> and from itself and has the hover text \<open>int\<close>; the definition at \<open>a:5:2\<close> is
  referenced from itself and has an empty hover text. Both carry an export moniker of the
  package \<open>pkg\<close>.
\<close>

definition example_loc :: "string \<Rightarrow> int \<Rightarrow> int \<Rightarrow> int \<Rightarrow> Location" where
  "example_loc u l c c' =
     \<lparr>Location.uri = u,
      range' = \<lparr>lsp_Range.start = \<lparr>Position.line = Num l, character = Num c\<rparr>,
                lsp_Range.end' = \<lparr>Position.line = Num l, character = Num c'\<rparr>\<rparr>\<rparr>"

definition example_args :: ffff_args where
  "example_args =
     \<lparr>root = ''r'', inFileGlob = ''r/*.lsif.in'',
      docs = [''b'', ''a''],
      rangesByDoc = [(''b'', [''b:1:0'']), (''a'', [''a:0:0'', ''a:5:2''])],
      refsByDef = [(''a:0:0'', [''b:1:0'', ''a:0:0'']), (''a:5:2'', [''a:5:2''])],
      hoverByDef = [(''a:0:0'', ''int''), (''a:5:2'', '''')],
      locByRange = [(''b:1:0'', example_loc ''b'' 1 0 3), (''a:0:0'', example_loc ''a'' 0 0 1),
                    (''a:5:2'', example_loc ''a'' 5 2 4)],
      importMonikerByRange = [],
      exportMonikerByRange = [(''a:0:0'', \<lparr>moniker = ''f'', packageInformation = ''pkg''\<rparr>),
                              (''a:5:2'', \<lparr>moniker = ''g'', packageInformation = ''pkg''\<rparr>)]\<rparr>"

text \<open>
  Two inputs of \<open>writeLSIF\<close>, each one file with one line. In the first the line of file
  \<open>a\<close> is its own definition (\<open>*buffer*\<close> stands for the file itself). In the second the
  file is called \<open>a:b\<close> and its line refers to a definition in file \<open>d\<close>.
\<close>

definition self_reference_input :: "(string \<times> in_line list) list" where
  "self_reference_input =
     [(''a'',
       [\<lparr>in_line.start = \<lparr>Pos_.line = Num 1, col = Num 0\<rparr>,
         in_line.end' = \<lparr>Pos_.line = Num 1, col = Num 1\<rparr>,
         definition' = \<lparr>definition_ref.file' = ''*buffer*'', pos = \<lparr>Pos_.line = Num 1, col = Num 0\<rparr>\<rparr>,
         in_line.type' = Some ''int''\<rparr>])]"

definition colon_path_input :: "(string \<times> in_line list) list" where
  "colon_path_input =
     [(''a:b'',
       [\<lparr>in_line.start = \<lparr>Pos_.line = Num 1, col = Num 0\<rparr>,
         in_line.end' = \<lparr>Pos_.line = Num 1, col = Num 1\<rparr>,
         definition' = \<lparr>definition_ref.file' = ''d'', pos = \<lparr>Pos_.line = Num 2, col = Num 1\<rparr>\<rparr>,
         in_line.type' = Some ''t''\<rparr>])]"



section \<open>Splitting and decimal numerals\<close>

lemma split_nonempty: "split c xs \<noteq> []"
  by (induction xs) (auto split: list.splits)

lemma split_append: "split c (xs @ c # ys) = split c xs @ split c ys"
  by (induction xs) (auto simp: split_nonempty split: list.splits)

lemma split_notin: "c \<notin> set xs \<Longrightarrow> split c xs = [xs]"
  by (induction xs) auto

lemma concat_split: "concat (split c xs) = filter (\<lambda>x. x \<noteq> c) xs"
  by (induction xs) (auto split: list.splits)

lemma length_split: "length (split c xs) = Suc (length (filter (\<lambda>x. x = c) xs))"
  by (induction xs) (auto split: list.splits simp: split_nonempty)

lemma isDigit_digitChar: "d < 10 \<Longrightarrow> isDigit (digitChar d)"
  by (simp add: isDigit_def digitChar_def)

lemma digitVal_digitChar: "d < 10 \<Longrightarrow> digitVal (digitChar d) = int d"
  by (simp add: digitVal_def digitChar_def)

lemma show_nat_digits: "c \<in> set (show_nat n) \<Longrightarrow> isDigit c"
  by (induction n rule: show_nat.induct)
     (subst (asm) show_nat.simps, auto simp: isDigit_digitChar split: if_splits)

lemma show_nat_nonempty: "show_nat n \<noteq> []"
  by (subst show_nat.simps) simp

lemma show_nat_value: "decimalValue (show_nat n) = int n"
proof (induction n rule: show_nat.induct)
  case (1 n)
  show ?case
  proof (cases "n < 10")
    case True
    then show ?thesis
      by (subst show_nat.simps) (simp add: decimalValue_def digitVal_digitChar)
  next
    case False
    have "10 * int (n div 10) + int (n mod 10) = int n" by presburger
    with False 1 show ?thesis
      by (subst show_nat.simps) (simp add: decimalValue_def digitVal_digitChar)
  qed
qed

lemma show_nat_no_colon: "CHR '':'' \<notin> set (show_nat n)"
  using show_nat_digits [of "CHR '':''" n] by (auto simp: isDigit_def)

lemma show_nat_hd:
  "\<not> isWhiteSpace (hd (show_nat n)) \<and> hd (show_nat n) \<noteq> CHR ''-'' \<and> hd (show_nat n) \<noteq> CHR ''+''"
  using show_nat_digits [of "hd (show_nat n)" n] show_nat_nonempty [of n]
  by (auto simp: isDigit_def isWhiteSpace_def)

lemma takeWhile_show_nat: "takeWhile isDigit (show_nat n) = show_nat n"
  by (simp add: show_nat_digits)

lemma dropWhile_show_nat: "dropWhile isWhiteSpace (show_nat n) = show_nat n"
  using show_nat_hd [of n] show_nat_nonempty [of n] by (cases "show_nat n") auto

text \<open>Evaluating the printing of a large number.\<close>

lemma bitlen_numeral [simp]: "bitlen (numeral k) = Suc (bitlen (numeral k div 2))"
  by (subst bitlen.simps) simp

lemma bitlen_0 [simp]: "bitlen 0 = 0"
  by (subst bitlen.simps) simp

lemma bitlen_1 [simp]: "bitlen (Suc 0) = 1"
  by (subst bitlen.simps) simp

lemma digitChar_simps:
  "digitChar 0 = CHR ''0''" "digitChar 1 = CHR ''1''" "digitChar 2 = CHR ''2''"
  "digitChar 3 = CHR ''3''" "digitChar 4 = CHR ''4''" "digitChar 5 = CHR ''5''"
  "digitChar 6 = CHR ''6''" "digitChar 7 = CHR ''7''" "digitChar 8 = CHR ''8''"
  "digitChar 9 = CHR ''9''" "digitChar (Suc 0) = CHR ''1''"
  by code_simp+

lemma show_nat_numeral:
  "show_nat (numeral k) = (if (numeral k :: nat) < 10 then [digitChar (numeral k)]
     else show_nat (numeral k div 10) @ [digitChar (numeral k mod 10)])"
  by (subst show_nat.simps) simp

lemma show_nat_0: "show_nat 0 = ''0''"
  by (subst show_nat.simps) (simp add: digitChar_simps)

lemma show_nat_1: "show_nat (Suc 0) = ''1''"
  by (subst show_nat.simps) (simp add: digitChar_simps)

lemmas show_nat_eval = show_nat_numeral show_nat_0 show_nat_1 digitChar_simps

lemma r21: "roundDouble 1000000000000000000000 = 1000000000000000000000"
  by (simp add: roundDouble_def Let_def)

lemma s21: "show_nat 1000000000000000000000 = ''1000000000000000000000''"
  by (simp add: show_nat_eval)

lemma shortest_first: "near x 1 = v # vs \<Longrightarrow> roundDouble v = x \<Longrightarrow> shortest x = v"
  by (simp add: shortest_def upt_conv_Cons)

lemma near21: "near 1000000000000000000000 1 = [1000000000000000000000, 2000000000000000000000]"
  by (simp add: near_def s21 Let_def)

lemma sh21: "shortest 1000000000000000000000 = 1000000000000000000000"
  by (rule shortest_first [OF near21 r21])

lemma len21: "length (show_nat 1000000000000000000000) = 22"
  by (simp add: s21)

lemma n21: "Number_toString (Num 1000000000000000000000) = ''1e+21''"
  apply (simp add: Number_toString_def show_double_def sh21 len21 Let_def)
  apply (simp add: s21 show_nat_eval)
  done

lemma length_show_nat: "0 < m \<Longrightarrow> n < 10 ^ m \<Longrightarrow> length (show_nat n) \<le> m"
proof (induction n arbitrary: m rule: show_nat.induct)
  case (1 n)
  show ?case
  proof (cases "n < 10")
    case True
    then show ?thesis using 1(2) by (subst show_nat.simps) simp
  next
    case False
    then obtain m' where m: "m = Suc m'" using 1(2) by (cases m) auto
    have "m' \<noteq> 0" using False 1(3) m by (cases m') auto
    moreover have "n div 10 < 10 ^ m'" using 1(3) m by (simp add: less_mult_imp_div_less)
    ultimately have "length (show_nat (n div 10)) \<le> m'" using 1(1) [OF False, of m'] by simp
    then show ?thesis using False m by (subst show_nat.simps) simp
  qed
qed

lemma show_nat_bound: "n < 10 ^ length (show_nat n)"
proof (induction n rule: show_nat.induct)
  case (1 n)
  show ?case
  proof (cases "n < 10")
    case True
    then show ?thesis by (subst show_nat.simps) simp
  next
    case False
    then have "n div 10 < 10 ^ length (show_nat (n div 10))" using 1 by simp
    then have "n < 10 * 10 ^ length (show_nat (n div 10))" by (simp add: div_less_iff_less_mult)
    then show ?thesis using False by (subst show_nat.simps) simp
  qed
qed

lemma bitlen_le: "n < 2 ^ m \<Longrightarrow> bitlen n \<le> m"
proof (induction n arbitrary: m rule: bitlen.induct)
  case (1 n)
  show ?case
  proof (cases "n = 0")
    case True
    then show ?thesis by (subst bitlen.simps) simp
  next
    case False
    then obtain m' where m: "m = Suc m'" using 1(2) by (cases m) auto
    have "n div 2 < 2 ^ m'" using 1(2) m by (simp add: less_mult_imp_div_less)
    then have "bitlen (n div 2) \<le> m'" using 1(1) [OF False] by simp
    then show ?thesis using False m by (subst bitlen.simps) simp
  qed
qed

lemma roundDouble_exact: "n < 2 ^ 53 \<Longrightarrow> roundDouble n = n"
  using bitlen_le [of n 53] by (simp add: roundDouble_def)

lemma near_bound: "v \<in> set (near x k) \<Longrightarrow> v \<le> 10 ^ length (show_nat x)"
proof -
  assume v: "v \<in> set (near x k)"
  define n where "n = length (show_nat x)"
  define p :: nat where "p = 10 ^ (n - k)"
  have x: "x < 10 ^ n" unfolding n_def by (rule show_nat_bound)
  have p: "0 < p" by (simp add: p_def)
  have lo: "x div p * p \<le> x" by simp
  have "\<exists>q. (10::nat) ^ n = q * p"
  proof
    show "(10::nat) ^ n = 10 ^ (n - (n - k)) * p"
      by (simp add: p_def flip: power_add)
  qed
  then obtain q where q: "(10::nat) ^ n = q * p" ..
  have "x div p < q" using x q p by (simp add: div_less_iff_less_mult)
  then have "Suc (x div p) * p \<le> q * p" by (intro mult_le_mono1) simp
  then have hi: "x div p * p + p \<le> 10 ^ n" using q by simp
  from v have "v = x div p * p \<or> v = x div p * p + p"
    by (auto simp: near_def Let_def p_def n_def split: if_splits)
  then show ?thesis using lo hi x unfolding n_def by auto
qed

lemma find_Some_set: "find P xs = Some v \<Longrightarrow> P v \<and> v \<in> set xs"
  by (induction xs) (auto split: if_splits)

lemma shortest_round: "roundDouble x = x \<Longrightarrow> roundDouble (shortest x) = x"
  by (auto simp: shortest_def dest: find_Some_set split: option.splits)

lemma shortest_bound: "shortest x \<le> 10 ^ length (show_nat x)"
proof (cases "find (\<lambda>v. roundDouble v = x) (concat (map (near x) [1..<18]))")
  case None
  then show ?thesis using show_nat_bound [of x] by (simp add: shortest_def)
next
  case (Some v)
  then have "v \<in> set (concat (map (near x) [1..<18]))"
    by (auto dest: find_Some_set)
  then obtain k where "v \<in> set (near x k)" by auto
  then show ?thesis using Some near_bound by (simp add: shortest_def)
qed

lemma shortest_less:
  assumes "x < 10 ^ 21" and "roundDouble x = x"
  shows "shortest x < 10 ^ 21"
proof -
  have "length (show_nat x) \<le> 21" using assms(1) by (intro length_show_nat) simp_all
  then have "(10::nat) ^ length (show_nat x) \<le> 10 ^ 21" by (intro power_increasing) simp_all
  then have le: "shortest x \<le> 10 ^ 21" using shortest_bound [of x] by linarith
  have "shortest x \<noteq> 10 ^ 21"
  proof
    assume "shortest x = 10 ^ 21"
    then have "roundDouble (10 ^ 21) = x" using shortest_round [OF assms(2)] by simp
    then show False using r21 assms(1) by simp
  qed
  then show ?thesis using le by linarith
qed

lemma show_double_plain:
  assumes "x < 10 ^ 21" and "roundDouble x = x"
  shows "show_double x = show_nat (shortest x)"
proof -
  have "length (show_nat (shortest x)) \<le> 21"
    using shortest_less [OF assms] by (intro length_show_nat) simp_all
  then show ?thesis by (simp add: show_double_def Let_def)
qed

lemma bitlen_roundDouble:
  assumes "x < 10 ^ 21" and "roundDouble v = x"
  shows "\<not> 1024 < bitlen (roundDouble v)"
proof -
  have "(10::nat) ^ 21 < 2 ^ 1024" by simp
  then have "x < 2 ^ 1024" using assms(1) by linarith
  then have "bitlen x \<le> 1024" by (rule bitlen_le)
  then show ?thesis using assms(2) by simp
qed

lemma parseInt_show_nat: "parseInt (show_nat n) = toNumber (int n)"
  using show_nat_hd [of n] show_nat_nonempty [of n]
  by (simp add: parseInt_def dropWhile_show_nat takeWhile_show_nat show_nat_value Let_def)

lemma parseInt_minus_show_nat: "parseInt (CHR ''-'' # show_nat n) = toNumber (- int n)"
  using show_nat_nonempty [of n]
  by (simp add: parseInt_def isWhiteSpace_def takeWhile_show_nat show_nat_value Let_def)

lemma parseInt_show_double:
  assumes "x < 10 ^ 21" and "roundDouble x = x"
  shows "parseInt (show_double x) = Num (int x)"
    and "parseInt (CHR ''-'' # show_double x) = Num (- int x)"
proof -
  have r: "roundDouble (shortest x) = x" by (rule shortest_round [OF assms(2)])
  have b: "\<not> 1024 < bitlen (roundDouble (shortest x))" by (rule bitlen_roundDouble [OF assms(1) r])
  show "parseInt (show_double x) = Num (int x)"
    using b r by (simp add: show_double_plain [OF assms] parseInt_show_nat toNumber_def Let_def)
  have z: "shortest x = 0 \<Longrightarrow> x = 0"
    using r by (simp add: roundDouble_def)
  show "parseInt (CHR ''-'' # show_double x) = Num (- int x)"
    using b r z
    by (auto simp add: show_double_plain [OF assms] parseInt_minus_show_nat toNumber_def Let_def)
qed

text \<open>
  Printing a number and reading it with \<open>parseInt\<close> gives the number back, for the
  doubles of magnitude below \<open>10^21\<close>.
\<close>

lemma parseInt_Number_toString:
  assumes "\<bar>i\<bar> < 10 ^ 21" and "int (roundDouble (nat \<bar>i\<bar>)) = \<bar>i\<bar>"
  shows "parseInt (Number_toString (Num i)) = Num i"
proof (cases "i < 0")
  case True
  have "nat (- i) < 10 ^ 21" using assms(1) True by (simp add: nat_less_iff)
  moreover have "roundDouble (nat (- i)) = nat (- i)" using assms(2) True by simp
  ultimately show ?thesis
    using True parseInt_show_double(2) [of "nat (- i)"] by (simp add: Number_toString_def)
next
  case False
  have "nat i < 10 ^ 21" using assms(1) False by (simp add: nat_less_iff)
  moreover have "roundDouble (nat i) = nat i" using assms(2) False by simp
  ultimately show ?thesis
    using False parseInt_show_double(1) [of "nat i"] by (simp add: Number_toString_def)
qed


lemma show_double_no_colon: "CHR '':'' \<notin> set (show_double x)"
proof -
  define s where "s = rev (dropWhile (\<lambda>c. c = CHR ''0'') (rev (show_nat (shortest x))))"
  have "set s \<subseteq> set (show_nat (shortest x))"
    unfolding s_def using set_dropWhileD [of _ "\<lambda>c. c = CHR ''0''" "rev (show_nat (shortest x))"]
    by auto
  then have s: "CHR '':'' \<notin> set s" using show_nat_no_colon by blast
  have "CHR '':'' \<notin> set (case s of [] \<Rightarrow> [] | d # ds \<Rightarrow> if ds = [] then [d] else d # CHR ''.'' # ds)"
    using s by (cases s) auto
  then show ?thesis
    by (simp add: show_double_def Let_def show_nat_no_colon flip: s_def)
qed

lemma Number_toString_no_colon: "CHR '':'' \<notin> set (Number_toString n)"
  by (cases n) (auto simp: Number_toString_def show_double_no_colon)

section \<open>Sequencing\<close>

lemma fst_emit: "fst (emit x) = [x]" and snd_emit: "snd (emit x) = None"
  by (simp_all add: emit_def)

lemma snd_throw: "snd (throw e) = Some e" and fst_throw: "fst (throw e) = []"
  by (simp_all add: throw_def)

lemma seqs_ok_iff: "snd (seqs es) = None \<longleftrightarrow> (\<forall>e\<in>set es. snd e = None)"
  by (induction es) (auto split: option.splits)

lemma seqs_items: "snd (seqs es) = None \<Longrightarrow> fst (seqs es) = concat (map fst es)"
  by (induction es) (auto split: option.splits)

lemma seqs_subset: "set (fst (seqs es)) \<subseteq> (\<Union>e\<in>set es. set (fst e))"
  by (induction es) (auto split: option.splits)

lemma seqs_emit_Cons: "seqs (emit x # es) = (x # fst (seqs es), snd (seqs es))"
  by (simp add: emit_def)

lemma for_each_ok_iff: "snd (for_each f xs) = None \<longleftrightarrow> (\<forall>x\<in>set xs. snd (f x) = None)"
  by (simp add: for_each_def seqs_ok_iff)

lemma for_each_items:
  "snd (for_each f xs) = None \<Longrightarrow> fst (for_each f xs) = concat (map (\<lambda>x. fst (f x)) xs)"
  by (simp add: for_each_def seqs_items comp_def)

lemma for_each_subset: "set (fst (for_each f xs)) \<subseteq> (\<Union>x\<in>set xs. set (fst (f x)))"
  using seqs_subset [of "map f xs"] by (auto simp: for_each_def)

lemma for_each_emit: "for_each (\<lambda>x. emit (g x)) xs = (map g xs, None)"
  by (induction xs) (auto simp: for_each_def emit_def)

section \<open>The items of one definition group\<close>

lemma emitImportMoniker_eq:
  "emitImportMoniker d m =
     ([V_moniker (''moniker:import:'' @ d) (moniker m) MonikerKind_import ''cpp'',
       E_moniker (''monikerEdge:import:'' @ d) (''resultSet:'' @ d) (''moniker:import:'' @ d),
       V_packageInformation (''package:'' @ packageInformation m) ''cpp''
         (packageInformation m) ''1.0'',
       E_packageInformation (''packageEdge:'' @ packageInformation m) (''moniker:import:'' @ d)
         (''package:'' @ packageInformation m)], None)"
  by (simp add: emitImportMoniker_def emit_def)

lemma emitExportMoniker_eq:
  "emitExportMoniker d m =
     ([V_moniker (''moniker:export:'' @ d) (moniker m) MonikerKind_export ''cpp'',
       E_moniker (''monikerEdge:export:'' @ d) (''resultSet:'' @ d) (''moniker:export:'' @ d),
       V_packageInformation (''package:'' @ packageInformation m) ''cpp''
         (packageInformation m) ''1.0'',
       E_packageInformation (''packageEdge:'' @ packageInformation m) (''moniker:export:'' @ d)
         (''package:'' @ packageInformation m)], None)"
  by (simp add: emitExportMoniker_def emit_def)

lemma emitDefinitionResult_eq:
  "emitDefinitionResult d defLoc =
     ([V_definitionResult (''definition:'' @ d),
       E_textDocument_definition (''textDocument/definition:'' @ d) (''resultSet:'' @ d)
         (''definition:'' @ d),
       E_item (''item:textDocument/definition:'' @ d) (''definition:'' @ d) [d] None
         (''document:'' @ Location.uri defLoc)], None)"
  by (simp add: emitDefinitionResult_def emit_def)

lemma emitHover_eq:
  "emitHover d hover =
     (case hover of
        None \<Rightarrow> []
      | Some h \<Rightarrow>
          if h \<noteq> [] then
            [V_hoverResult (''hover:'' @ d) h,
             E_textDocument_hover (''textDocument/hover:'' @ d) (''resultSet:'' @ d)
               (''hover:'' @ d)]
          else [], None)"
  by (simp add: emitHover_def emit_def split: option.split)

lemma emitReferenceItems_ok:
  "snd (emitReferenceItems d refs) = None \<Longrightarrow>
   \<exists>grouped. groupBy refs (\<lambda>ref. map_sum id FilePosition.uri (parseFilePosition ref)) = Inr grouped
     \<and> fst (emitReferenceItems d refs) =
         map (\<lambda>pair. E_item (''item:textDocument/references:references:'' @ d @ '':'' @ fst pair)
                (''reference:'' @ d) (snd pair) (Some ItemEdgeProperties_references)
                (''document:'' @ fst pair)) (toPairs grouped)"
  by (auto simp: emitReferenceItems_def for_each_emit throw_def split: sum.splits)

lemma snd_import_or_definition:
  "snd (case mi of Some m \<Rightarrow> emitImportMoniker d m | None \<Rightarrow> emitDefinitionResult d defLoc) = None"
  by (simp add: emitImportMoniker_eq emitDefinitionResult_eq split: option.split)

lemma snd_definitions_item: "snd (case mi of Some m \<Rightarrow> seqs [] | None \<Rightarrow> emit x) = None"
  by (simp add: emit_def split: option.split)

lemma snd_export: "snd (case me of Some m \<Rightarrow> emitExportMoniker d m | None \<Rightarrow> seqs []) = None"
  by (simp add: emitExportMoniker_eq split: option.split)

text \<open>The items of one entry, block after block, when the entry is emitted without an error.\<close>

lemma entry_items:
  assumes "snd (emitDefsRefsHovers_entry H L I E (d, refs)) = None"
  shows "\<exists>defLoc. map_of L d = Some defLoc
     \<and> snd (emitReferenceItems d refs) = None
     \<and> fst (emitDefsRefsHovers_entry H L I E (d, refs)) =
        [V_resultSet (''resultSet:'' @ d), E_next (''next:'' @ d) d (''resultSet:'' @ d)]
        @ fst (case map_of I d of
                 Some m \<Rightarrow> emitImportMoniker d m
               | None \<Rightarrow> emitDefinitionResult d defLoc)
        @ fst (emitHover d (map_of H d))
        @ [V_referenceResult (''reference:'' @ d),
           E_textDocument_references (''textDocument/references:'' @ d) (''resultSet:'' @ d)
             (''reference:'' @ d)]
        @ fst (case map_of I d of
                 Some m \<Rightarrow> seqs []
               | None \<Rightarrow>
                   emit (E_item (''item:textDocument/references:definitions:'' @ d)
                     (''reference:'' @ d) [d] (Some ItemEdgeProperties_definitions)
                     (''document:'' @ Location.uri defLoc)))
        @ map (\<lambda>ref. E_next (''next:'' @ ref) ref (''resultSet:'' @ d)) refs
        @ fst (emitReferenceItems d refs)
        @ fst (case map_of E d of Some m \<Rightarrow> emitExportMoniker d m | None \<Rightarrow> seqs [])"
proof (cases "map_of L d")
  case None
  with assms show ?thesis
    by (simp add: emitDefsRefsHovers_entry_def throw_def)
next
  case (Some defLoc)
  let ?es = "[
            emit (V_resultSet (''resultSet:'' @ d)),
            emit (E_next (''next:'' @ d) d (''resultSet:'' @ d)),
            (case map_of I d of
               Some importMoniker \<Rightarrow> emitImportMoniker d importMoniker
             | None \<Rightarrow> emitDefinitionResult d defLoc),
            emitHover d (map_of H d),
            emit (V_referenceResult (''reference:'' @ d)),
            emit (E_textDocument_references (''textDocument/references:'' @ d)
                    (''resultSet:'' @ d) (''reference:'' @ d)),
            (case map_of I d of
               Some importMoniker \<Rightarrow> seqs []
             | None \<Rightarrow>
                 emit (E_item (''item:textDocument/references:definitions:'' @ d)
                         (''reference:'' @ d) [d] (Some ItemEdgeProperties_definitions)
                         (''document:'' @ Location.uri defLoc))),
            for_each (\<lambda>ref.
              emit (E_next (''next:'' @ ref) ref (''resultSet:'' @ d))) refs,
            emitReferenceItems d refs,
            (case map_of E d of
               Some exportMoniker \<Rightarrow> emitExportMoniker d exportMoniker
             | None \<Rightarrow> seqs [])]"
  have eq: "emitDefsRefsHovers_entry H L I E (d, refs) = seqs ?es"
    using Some by (simp only: emitDefsRefsHovers_entry_def Let_def fst_conv snd_conv option.case)
  with assms have ok: "snd (seqs ?es) = None" by simp
  then have "\<forall>e\<in>set ?es. snd e = None" by (simp only: seqs_ok_iff)
  then have r: "snd (emitReferenceItems d refs) = None" by simp
  have "fst (seqs ?es) = concat (map fst ?es)" using ok by (rule seqs_items)
  then have "fst (emitDefsRefsHovers_entry H L I E (d, refs)) = concat (map fst ?es)"
    using eq by simp
  then show ?thesis using Some r
    by (simp only: list.map concat.simps fst_emit for_each_emit fst_conv append_Nil2 append_Cons append_Nil)
       simp
qed


section \<open>The items of a whole run\<close>

lemma emitDefsRefsHovers_items:
  assumes "snd (emitDefsRefsHovers R H L I E) = None"
  shows "fst (emitDefsRefsHovers R H L I E) =
           concat (map (\<lambda>entry. fst (emitDefsRefsHovers_entry H L I E entry)) R)"
    and "\<forall>entry\<in>set R. snd (emitDefsRefsHovers_entry H L I E entry) = None"
  using assms by (simp_all add: emitDefsRefsHovers_def for_each_items for_each_ok_iff)

lemma emitDocsBegin_eq:
  "emitDocsBegin r doc =
     ([V_document (''document:'' @ doc) (''file:///'' @ doc) ''cpp'' [],
       V_event (''documentBegin:'' @ doc) (''document:'' @ doc) EventKind_begin
         EventScope_document], None)"
  by (simp add: emitDocsBegin_def emit_def)

lemma for_each_docsBegin:
  "for_each (emitDocsBegin r) ds =
     (concat (map (\<lambda>doc.
        [V_document (''document:'' @ doc) (''file:///'' @ doc) ''cpp'' [],
         V_event (''documentBegin:'' @ doc) (''document:'' @ doc) EventKind_begin
           EventScope_document]) ds), None)"
  by (induction ds) (simp_all add: for_each_def emitDocsBegin_eq)

lemma emitDocsEnd_items:
  assumes "snd (emitDocsEnd ds rbd) = None"
  shows "fst (emitDocsEnd ds rbd) =
     concat (map (\<lambda>doc.
       [E_contains (''contains:'' @ doc) (''document:'' @ doc) (the (map_of rbd doc)),
        V_event (''documentEnd:'' @ doc) (''document:'' @ doc) EventKind_end
          EventScope_document]) ds)"
  using assms
proof (induction ds)
  case Nil
  then show ?case by (simp add: emitDocsEnd_def for_each_def)
next
  case (Cons doc ds)
  then show ?case
    by (cases "map_of rbd doc")
       (simp_all add: emitDocsEnd_def for_each_def throw_def emit_def split: option.splits)
qed

lemma ranges_loop:
  "for_each (\<lambda>range. case map_of L range of
                        None \<Rightarrow> throw (LookupError range)
                      | Some loc \<Rightarrow> emit (makeRange loc)) (map fst L)
   = (map (\<lambda>range. makeRange (the (map_of L range))) (map fst L), None)"
proof -
  have "\<forall>k\<in>set ks. map_of L k \<noteq> None \<Longrightarrow>
        for_each (\<lambda>range. case map_of L range of
                        None \<Rightarrow> throw (LookupError range)
                      | Some loc \<Rightarrow> emit (makeRange loc)) ks
        = (map (\<lambda>range. makeRange (the (map_of L range))) ks, None)" for ks
    by (induction ks) (auto simp: for_each_def emit_def)
  moreover have "\<forall>k\<in>set (map fst L). map_of L k \<noteq> None"
    by (auto simp: map_of_eq_None_iff)
  ultimately show ?thesis by blast
qed

lemma ffff_items:
  assumes "snd (ffff a) = None"
  shows "fst (ffff a) =
     [makeMeta (root a) (inFileGlob a), makeProject, makeProjectBegin]
     @ concat (map (\<lambda>doc.
         [V_document (''document:'' @ doc) (''file:///'' @ doc) ''cpp'' [],
          V_event (''documentBegin:'' @ doc) (''document:'' @ doc) EventKind_begin
            EventScope_document]) (docs a))
     @ map (\<lambda>range. makeRange (the (map_of (locByRange a) range))) (map fst (locByRange a))
     @ concat (map (\<lambda>entry. fst (emitDefsRefsHovers_entry (hoverByDef a) (locByRange a)
                  (importMonikerByRange a) (exportMonikerByRange a) entry)) (refsByDef a))
     @ concat (map (\<lambda>doc.
         [E_contains (''contains:'' @ doc) (''document:'' @ doc)
            (the (map_of (rangesByDoc a) doc)),
          V_event (''documentEnd:'' @ doc) (''document:'' @ doc) EventKind_end
            EventScope_document]) (docs a))
     @ [E_contains ''projectContains'' ''project'' (map (\<lambda>doc. ''document:'' @ doc) (docs a)),
        makeProjectEnd]"
    and "snd (emitDefsRefsHovers (refsByDef a) (hoverByDef a) (locByRange a)
               (importMonikerByRange a) (exportMonikerByRange a)) = None"
    and "snd (emitDocsEnd (docs a) (rangesByDoc a)) = None"
proof -
  let ?es = "[
       emit (makeMeta (root a) (inFileGlob a)),
       emit makeProject,
       emit makeProjectBegin,
       for_each (emitDocsBegin (root a)) (docs a),
       for_each (\<lambda>range.
         case map_of (locByRange a) range of
           None \<Rightarrow> throw (LookupError range)
         | Some loc \<Rightarrow> emit (makeRange loc)) (map fst (locByRange a)),
       emitDefsRefsHovers (refsByDef a) (hoverByDef a) (locByRange a)
         (importMonikerByRange a) (exportMonikerByRange a),
       emitDocsEnd (docs a) (rangesByDoc a),
       emit (E_contains ''projectContains'' ''project''
               (map (\<lambda>doc. ''document:'' @ doc) (docs a))),
       emit makeProjectEnd]"
  have eq: "ffff a = seqs ?es" by (simp only: ffff_def)
  with assms have ok: "snd (seqs ?es) = None" by simp
  then have all: "\<forall>e\<in>set ?es. snd e = None" by (simp only: seqs_ok_iff)
  show g: "snd (emitDefsRefsHovers (refsByDef a) (hoverByDef a) (locByRange a)
               (importMonikerByRange a) (exportMonikerByRange a)) = None"
    using all by simp
  show d: "snd (emitDocsEnd (docs a) (rangesByDoc a)) = None"
    using all by simp
  have "fst (seqs ?es) = concat (map fst ?es)" using ok by (rule seqs_items)
  then have "fst (ffff a) = concat (map fst ?es)" using eq by simp
  then show "fst (ffff a) =
     [makeMeta (root a) (inFileGlob a), makeProject, makeProjectBegin]
     @ concat (map (\<lambda>doc.
         [V_document (''document:'' @ doc) (''file:///'' @ doc) ''cpp'' [],
          V_event (''documentBegin:'' @ doc) (''document:'' @ doc) EventKind_begin
            EventScope_document]) (docs a))
     @ map (\<lambda>range. makeRange (the (map_of (locByRange a) range))) (map fst (locByRange a))
     @ concat (map (\<lambda>entry. fst (emitDefsRefsHovers_entry (hoverByDef a) (locByRange a)
                  (importMonikerByRange a) (exportMonikerByRange a) entry)) (refsByDef a))
     @ concat (map (\<lambda>doc.
         [E_contains (''contains:'' @ doc) (''document:'' @ doc)
            (the (map_of (rangesByDoc a) doc)),
          V_event (''documentEnd:'' @ doc) (''document:'' @ doc) EventKind_end
            EventScope_document]) (docs a))
     @ [E_contains ''projectContains'' ''project'' (map (\<lambda>doc. ''document:'' @ doc) (docs a)),
        makeProjectEnd]"
    by (simp only: list.map concat.simps fst_emit for_each_docsBegin ranges_loop fst_conv
        emitDefsRefsHovers_items(1) [OF g] emitDocsEnd_items [OF d]
        append_Nil2 append_Cons append_Nil append_assoc)
qed

lemma example_args_ok: "snd (ffff example_args) = None"
  by code_simp



section \<open>How often an item is emitted\<close>

lemma count_list_concat_map:
  "count_list (concat (map f xs)) x = sum_list (map (\<lambda>y. count_list (f y) x) xs)"
  by (induction xs) simp_all

lemma count_list_map_0: "(\<And>y. f y \<noteq> x) \<Longrightarrow> count_list (map f ys) x = 0"
  by (induction ys) auto

lemma count_list_pos: "x \<in> set xs \<Longrightarrow> 1 \<le> count_list xs x"
  using count_list_0_iff [of xs x] by (cases "count_list xs x") auto

lemma count_list_map_le: "count_list xs x \<le> count_list (map f xs) (f x)"
  by (induction xs) auto

lemma distinct_count_le_1: "distinct xs \<Longrightarrow> count_list xs x \<le> 1"
  by (induction xs) (auto simp: count_list_0_iff)

lemma count_two_not_distinct: "2 \<le> count_list xs x \<Longrightarrow> \<not> distinct xs"
  using distinct_count_le_1 [of xs x] by auto

lemma sum_list_two:
  fixes f :: "'a \<Rightarrow> nat"
  assumes "x \<in> set xs" "y \<in> set xs" "x \<noteq> y" "1 \<le> f x" "1 \<le> f y"
  shows "2 \<le> sum_list (map f xs)"
proof -
  obtain as bs where xs: "xs = as @ x # bs"
    using assms(1) by (meson split_list)
  with assms have "y \<in> set as \<or> y \<in> set bs" by auto
  then show ?thesis
  proof
    assume "y \<in> set as"
    then have "f y \<le> sum_list (map f as)" by (simp add: member_le_sum_list)
    with assms xs show ?thesis by simp
  next
    assume "y \<in> set bs"
    then have "f y \<le> sum_list (map f bs)" by (simp add: member_le_sum_list)
    with assms xs show ?thesis by simp
  qed
qed

text \<open>Counting an item of a definition group in the whole run.\<close>

lemma ffff_count_group_item:
  assumes ok: "snd (ffff a) = None"
    and kind: "\<not> is_V_metaData x" "\<not> is_V_project x" "\<not> is_V_event x" "\<not> is_V_document x"
      "\<not> is_V_range x" "\<not> is_E_contains x"
  shows "count_list (fst (ffff a)) x =
     sum_list (map (\<lambda>entry. count_list (fst (emitDefsRefsHovers_entry (hoverByDef a)
        (locByRange a) (importMonikerByRange a) (exportMonikerByRange a) entry)) x) (refsByDef a))"
proof -
  have 1: "count_list (map (\<lambda>range. makeRange (the (map_of (locByRange a) range))) ks) x = 0" for ks
    using kind by (intro count_list_map_0) (auto simp: makeRange_def)
  have 2: "count_list (concat (map (\<lambda>doc.
         [V_document (''document:'' @ doc) (''file:///'' @ doc) ''cpp'' [],
          V_event (''documentBegin:'' @ doc) (''document:'' @ doc) EventKind_begin
            EventScope_document]) ds)) x = 0" for ds
    using kind by (induction ds) auto
  have 3: "count_list (concat (map (\<lambda>doc.
         [E_contains (''contains:'' @ doc) (''document:'' @ doc)
            (the (map_of (rangesByDoc a) doc)),
          V_event (''documentEnd:'' @ doc) (''document:'' @ doc) EventKind_end
            EventScope_document]) ds)) x = 0" for ds
    using kind by (induction ds) auto
  have 4: "count_list [makeMeta (root a) (inFileGlob a), makeProject, makeProjectBegin] x = 0"
    using kind by (auto simp: makeMeta_def makeProject_def makeProjectBegin_def)
  have 5: "count_list [E_contains ''projectContains'' ''project''
        (map (\<lambda>doc. ''document:'' @ doc) (docs a)), makeProjectEnd] x = 0"
    using kind by (auto simp: makeProjectEnd_def)
  show ?thesis
    unfolding ffff_items(1) [OF ok] count_list_append 1 2 3 4 5
    by (simp only: count_list_concat_map add_0 add.right_neutral)
qed

lemma emitReferenceItems_kind: "y \<in> set (fst (emitReferenceItems d refs)) \<Longrightarrow> is_E_item y"
  by (auto simp: emitReferenceItems_def for_each_emit throw_def split: sum.splits)

lemma entry_count_next:
  assumes "snd (emitDefsRefsHovers_entry H L I E (d, refs)) = None" "d \<in> set refs"
  shows "2 \<le> count_list (fst (emitDefsRefsHovers_entry H L I E (d, refs)))
               (E_next (''next:'' @ d) d (''resultSet:'' @ d))"
proof -
  from entry_items [OF assms(1)] obtain defLoc where
    items: "fst (emitDefsRefsHovers_entry H L I E (d, refs)) =
        [V_resultSet (''resultSet:'' @ d), E_next (''next:'' @ d) d (''resultSet:'' @ d)]
        @ fst (case map_of I d of
                 Some m \<Rightarrow> emitImportMoniker d m
               | None \<Rightarrow> emitDefinitionResult d defLoc)
        @ fst (emitHover d (map_of H d))
        @ [V_referenceResult (''reference:'' @ d),
           E_textDocument_references (''textDocument/references:'' @ d) (''resultSet:'' @ d)
             (''reference:'' @ d)]
        @ fst (case map_of I d of
                 Some m \<Rightarrow> seqs []
               | None \<Rightarrow>
                   emit (E_item (''item:textDocument/references:definitions:'' @ d)
                     (''reference:'' @ d) [d] (Some ItemEdgeProperties_definitions)
                     (''document:'' @ Location.uri defLoc)))
        @ map (\<lambda>ref. E_next (''next:'' @ ref) ref (''resultSet:'' @ d)) refs
        @ fst (emitReferenceItems d refs)
        @ fst (case map_of E d of Some m \<Rightarrow> emitExportMoniker d m | None \<Rightarrow> seqs [])"
    by blast
  have "E_next (''next:'' @ d) d (''resultSet:'' @ d)
          \<in> set (map (\<lambda>ref. E_next (''next:'' @ ref) ref (''resultSet:'' @ d)) refs)"
    using assms(2) by (simp add: image_iff)
  then have "1 \<le> count_list (map (\<lambda>ref. E_next (''next:'' @ ref) ref (''resultSet:'' @ d)) refs)
                  (E_next (''next:'' @ d) d (''resultSet:'' @ d))"
    by (rule count_list_pos)
  then show ?thesis
    unfolding items count_list_append by simp
qed


lemma member_le_sum_list_map:
  fixes f :: "'a \<Rightarrow> nat"
  shows "e \<in> set xs \<Longrightarrow> f e \<le> sum_list (map f xs)"
  by (induction xs) auto

lemma concat_map_member: "e \<in> set xs \<Longrightarrow> \<exists>p q. concat (map g xs) = p @ g e @ q"
proof -
  assume "e \<in> set xs"
  then obtain as bs where "xs = as @ e # bs" by (meson split_list)
  then have "concat (map g xs) = concat (map g as) @ g e @ concat (map g bs)" by simp
  then show ?thesis by blast
qed

lemma append6_mid: "xs = a @ b @ c @ g @ d @ t \<Longrightarrow> g = p @ e @ q \<Longrightarrow> \<exists>pre post. xs = pre @ e @ post"
proof -
  assume "xs = a @ b @ c @ g @ d @ t" "g = p @ e @ q"
  then have "xs = (a @ b @ c @ p) @ e @ (q @ d @ t)" by simp
  then show ?thesis by blast
qed

lemma append8_mid:
  "xs = h @ a @ b @ c @ d @ m @ r @ e \<Longrightarrow> \<exists>mid post. xs = h @ mid @ m @ post"
proof -
  assume "xs = h @ a @ b @ c @ d @ m @ r @ e"
  then have "xs = h @ (a @ b @ c @ d) @ m @ (r @ e)" by simp
  then show ?thesis by blast
qed

lemma ffff_contains_entry:
  assumes "snd (ffff a) = None" "entry \<in> set (refsByDef a)"
  shows "\<exists>pre post. fst (ffff a) =
     pre @ fst (emitDefsRefsHovers_entry (hoverByDef a) (locByRange a)
                  (importMonikerByRange a) (exportMonikerByRange a) entry) @ post"
proof -
  from concat_map_member [OF assms(2)] obtain p q where
    "concat (map (\<lambda>entry. fst (emitDefsRefsHovers_entry (hoverByDef a) (locByRange a)
                  (importMonikerByRange a) (exportMonikerByRange a) entry)) (refsByDef a))
     = p @ fst (emitDefsRefsHovers_entry (hoverByDef a) (locByRange a)
                  (importMonikerByRange a) (exportMonikerByRange a) entry) @ q"
    by blast
  with ffff_items(1) [OF assms(1)] show ?thesis by (rule append6_mid)
qed

lemma ffff_entry_ok:
  assumes "snd (ffff a) = None" "entry \<in> set (refsByDef a)"
  shows "snd (emitDefsRefsHovers_entry (hoverByDef a) (locByRange a)
                  (importMonikerByRange a) (exportMonikerByRange a) entry) = None"
  using emitDefsRefsHovers_items(2) [OF ffff_items(2) [OF assms(1)]] assms(2) by blast

lemma entry_next_edges:
  assumes "snd (emitDefsRefsHovers_entry H L I E (d, refs)) = None"
  shows "\<exists>mid post. fst (emitDefsRefsHovers_entry H L I E (d, refs)) =
     [V_resultSet (''resultSet:'' @ d), E_next (''next:'' @ d) d (''resultSet:'' @ d)] @ mid
       @ map (\<lambda>ref. E_next (''next:'' @ ref) ref (''resultSet:'' @ d)) refs @ post"
proof -
  from entry_items [OF assms] obtain defLoc where
    items: "fst (emitDefsRefsHovers_entry H L I E (d, refs)) =
        [V_resultSet (''resultSet:'' @ d), E_next (''next:'' @ d) d (''resultSet:'' @ d)]
        @ fst (case map_of I d of
                 Some m \<Rightarrow> emitImportMoniker d m
               | None \<Rightarrow> emitDefinitionResult d defLoc)
        @ fst (emitHover d (map_of H d))
        @ [V_referenceResult (''reference:'' @ d),
           E_textDocument_references (''textDocument/references:'' @ d) (''resultSet:'' @ d)
             (''reference:'' @ d)]
        @ fst (case map_of I d of
                 Some m \<Rightarrow> seqs []
               | None \<Rightarrow>
                   emit (E_item (''item:textDocument/references:definitions:'' @ d)
                     (''reference:'' @ d) [d] (Some ItemEdgeProperties_definitions)
                     (''document:'' @ Location.uri defLoc)))
        @ map (\<lambda>ref. E_next (''next:'' @ ref) ref (''resultSet:'' @ d)) refs
        @ fst (emitReferenceItems d refs)
        @ fst (case map_of E d of Some m \<Rightarrow> emitExportMoniker d m | None \<Rightarrow> seqs [])"
    by blast
  from items show ?thesis by (rule append8_mid)
qed

text \<open>
  C8. When the references of a definition include the definition range itself, a run
  that ends without an error has emitted the next edge \<open>next:d\<close> from that range to its
  result set twice: once right after the result-set vertex, and once more in the loop
  over the references, so two items of the run carry the id \<open>next:d\<close>.
\<close>

theorem next_edge_of_self_reference_twice:
  assumes "snd (ffff a) = None" and "(d, refs) \<in> set (refsByDef a)" and "d \<in> set refs"
  shows "2 \<le> count_list (fst (ffff a)) (E_next (''next:'' @ d) d (''resultSet:'' @ d))
       \<and> (\<exists>pre mid post. fst (ffff a) =
            pre @ [E_next (''next:'' @ d) d (''resultSet:'' @ d)] @ mid
              @ map (\<lambda>ref. E_next (''next:'' @ ref) ref (''resultSet:'' @ d)) refs @ post)"
proof
  let ?entry = "emitDefsRefsHovers_entry (hoverByDef a) (locByRange a)
                  (importMonikerByRange a) (exportMonikerByRange a)"
  let ?x = "E_next (''next:'' @ d) d (''resultSet:'' @ d)"
  have ok: "snd (?entry (d, refs)) = None"
    using ffff_entry_ok [OF assms(1,2)] .
  have "2 \<le> count_list (fst (?entry (d, refs))) ?x"
    using ok assms(3) by (rule entry_count_next)
  also have "\<dots> \<le> sum_list (map (\<lambda>entry. count_list (fst (?entry entry)) ?x) (refsByDef a))"
    using assms(2) by (rule member_le_sum_list_map)
  also have "\<dots> = count_list (fst (ffff a)) ?x"
    using ffff_count_group_item [OF assms(1), of ?x] by simp
  finally show "2 \<le> count_list (fst (ffff a)) ?x" .
  from ffff_contains_entry [OF assms(1,2)] obtain pre post where
    1: "fst (ffff a) = pre @ fst (?entry (d, refs)) @ post" by blast
  from entry_next_edges [OF ok] obtain mid post' where
    2: "fst (?entry (d, refs)) =
     [V_resultSet (''resultSet:'' @ d), ?x] @ mid
       @ map (\<lambda>ref. E_next (''next:'' @ ref) ref (''resultSet:'' @ d)) refs @ post'" by blast
  have "fst (ffff a) = (pre @ [V_resultSet (''resultSet:'' @ d)]) @ [?x] @ mid
       @ map (\<lambda>ref. E_next (''next:'' @ ref) ref (''resultSet:'' @ d)) refs @ (post' @ post)"
    unfolding 1 2 by (simp only: append_assoc append_Cons append_Nil)
  then show "\<exists>pre mid post. fst (ffff a) =
            pre @ [?x] @ mid
              @ map (\<lambda>ref. E_next (''next:'' @ ref) ref (''resultSet:'' @ d)) refs @ post"
    by blast
qed

theorem next_edge_of_self_reference_twice_witness:
  "snd (ffff example_args) = None
   \<and> (''a:0:0'', [''b:1:0'', ''a:0:0'']) \<in> set (refsByDef example_args)
   \<and> 2 \<le> count_list (fst (ffff example_args)) (E_next ''next:a:0:0'' ''a:0:0'' ''resultSet:a:0:0'')"
proof -
  have ok: "snd (ffff example_args) = None" by (rule example_args_ok)
  have m: "(''a:0:0'', [''b:1:0'', ''a:0:0'']) \<in> set (refsByDef example_args)"
    by (simp add: example_args_def)
  have r: "''a:0:0'' \<in> set [''b:1:0'', ''a:0:0'']" by simp
  from next_edge_of_self_reference_twice [OF ok m r]
  have "2 \<le> count_list (fst (ffff example_args))
          (E_next (''next:'' @ ''a:0:0'') ''a:0:0'' (''resultSet:'' @ ''a:0:0''))"
    by (rule conjunct1)
  then have "2 \<le> count_list (fst (ffff example_args))
          (E_next ''next:a:0:0'' ''a:0:0'' ''resultSet:a:0:0'')"
    by simp
  with ok m show ?thesis by blast
qed

lemma entry_count_package:
  assumes "snd (emitDefsRefsHovers_entry H L I E (d, refs)) = None"
  shows "count_list (fst (emitDefsRefsHovers_entry H L I E (d, refs)))
           (V_packageInformation (''package:'' @ p) ''cpp'' p ''1.0'') =
         (if map_option packageInformation (map_of I d) = Some p then 1 else 0)
         + (if map_option packageInformation (map_of E d) = Some p then 1 else 0)"
proof -
  let ?x = "V_packageInformation (''package:'' @ p) ''cpp'' p ''1.0''"
  from entry_items [OF assms] obtain defLoc where
    items: "fst (emitDefsRefsHovers_entry H L I E (d, refs)) =
        [V_resultSet (''resultSet:'' @ d), E_next (''next:'' @ d) d (''resultSet:'' @ d)]
        @ fst (case map_of I d of
                 Some m \<Rightarrow> emitImportMoniker d m
               | None \<Rightarrow> emitDefinitionResult d defLoc)
        @ fst (emitHover d (map_of H d))
        @ [V_referenceResult (''reference:'' @ d),
           E_textDocument_references (''textDocument/references:'' @ d) (''resultSet:'' @ d)
             (''reference:'' @ d)]
        @ fst (case map_of I d of
                 Some m \<Rightarrow> seqs []
               | None \<Rightarrow>
                   emit (E_item (''item:textDocument/references:definitions:'' @ d)
                     (''reference:'' @ d) [d] (Some ItemEdgeProperties_definitions)
                     (''document:'' @ Location.uri defLoc)))
        @ map (\<lambda>ref. E_next (''next:'' @ ref) ref (''resultSet:'' @ d)) refs
        @ fst (emitReferenceItems d refs)
        @ fst (case map_of E d of Some m \<Rightarrow> emitExportMoniker d m | None \<Rightarrow> seqs [])"
    by blast
  have 1: "count_list [V_resultSet (''resultSet:'' @ d), E_next (''next:'' @ d) d (''resultSet:'' @ d)] ?x = 0"
    by simp
  have 2: "count_list (fst (case map_of I d of
                 Some m \<Rightarrow> emitImportMoniker d m
               | None \<Rightarrow> emitDefinitionResult d defLoc)) ?x
           = (if map_option packageInformation (map_of I d) = Some p then 1 else 0)"
    by (cases "map_of I d") (auto simp: emitImportMoniker_eq emitDefinitionResult_eq)
  have 3: "count_list (fst (emitHover d (map_of H d))) ?x = 0"
    by (simp add: emitHover_eq split: option.split)
  have 4: "count_list [V_referenceResult (''reference:'' @ d),
           E_textDocument_references (''textDocument/references:'' @ d) (''resultSet:'' @ d)
             (''reference:'' @ d)] ?x = 0"
    by simp
  have 5: "count_list (fst (case map_of I d of
                 Some m \<Rightarrow> seqs []
               | None \<Rightarrow>
                   emit (E_item (''item:textDocument/references:definitions:'' @ d)
                     (''reference:'' @ d) [d] (Some ItemEdgeProperties_definitions)
                     (''document:'' @ Location.uri defLoc)))) ?x = 0"
    by (simp add: emit_def split: option.split)
  have 6: "count_list (map (\<lambda>ref. E_next (''next:'' @ ref) ref (''resultSet:'' @ d)) refs) ?x = 0"
    by (rule count_list_map_0) simp
  have 7: "count_list (fst (emitReferenceItems d refs)) ?x = 0"
    using emitReferenceItems_kind [of ?x d refs] by (auto simp: count_list_0_iff)
  have 8: "count_list (fst (case map_of E d of Some m \<Rightarrow> emitExportMoniker d m | None \<Rightarrow> seqs [])) ?x
           = (if map_option packageInformation (map_of E d) = Some p then 1 else 0)"
    by (cases "map_of E d") (auto simp: emitExportMoniker_eq)
  show ?thesis
    unfolding items count_list_append 1 2 3 4 5 6 7 8 by simp
qed

text \<open>
  C2. A run that ends without an error has emitted the package-information vertex
  \<open>package:p\<close> once for every definition group whose import moniker names the package
  \<open>p\<close> and once for every group whose export moniker names it; nothing is deduplicated.
  Two groups with monikers of the same package therefore give at least two
  package-information vertices with the same id.
\<close>

theorem package_vertex_once_per_group:
  assumes "snd (ffff a) = None"
  shows "count_list (fst (ffff a)) (V_packageInformation (''package:'' @ p) ''cpp'' p ''1.0'') =
           sum_list (map (\<lambda>entry.
             (if map_option packageInformation (map_of (importMonikerByRange a) (fst entry)) = Some p
              then 1 else 0)
             + (if map_option packageInformation (map_of (exportMonikerByRange a) (fst entry)) = Some p
                then 1 else (0::nat))) (refsByDef a))
       \<and> (\<forall>e1\<in>set (refsByDef a). \<forall>e2\<in>set (refsByDef a).
             fst e1 \<noteq> fst e2
             \<and> (map_option packageInformation (map_of (importMonikerByRange a) (fst e1)) = Some p
                \<or> map_option packageInformation (map_of (exportMonikerByRange a) (fst e1)) = Some p)
             \<and> (map_option packageInformation (map_of (importMonikerByRange a) (fst e2)) = Some p
                \<or> map_option packageInformation (map_of (exportMonikerByRange a) (fst e2)) = Some p)
             \<longrightarrow> 2 \<le> count_list (fst (ffff a))
                        (V_packageInformation (''package:'' @ p) ''cpp'' p ''1.0''))"
proof -
  let ?x = "V_packageInformation (''package:'' @ p) ''cpp'' p ''1.0''"
  let ?n = "\<lambda>entry.
             (if map_option packageInformation (map_of (importMonikerByRange a) (fst entry)) = Some p
              then 1 else 0)
             + (if map_option packageInformation (map_of (exportMonikerByRange a) (fst entry)) = Some p
                then 1 else (0::nat))"
  let ?entry = "emitDefsRefsHovers_entry (hoverByDef a) (locByRange a)
                  (importMonikerByRange a) (exportMonikerByRange a)"
  have each: "count_list (fst (?entry e)) ?x = ?n e" if "e \<in> set (refsByDef a)" for e
  proof -
    have "snd (?entry (fst e, snd e)) = None"
      using ffff_entry_ok [OF assms that] by simp
    from entry_count_package [OF this, of p] show ?thesis by simp
  qed
  have "count_list (fst (ffff a)) ?x
        = sum_list (map (\<lambda>e. count_list (fst (?entry e)) ?x) (refsByDef a))"
    by (rule ffff_count_group_item [OF assms]) simp_all
  also have "\<dots> = sum_list (map ?n (refsByDef a))"
    using each by (intro arg_cong [where f = sum_list] map_cong) auto
  finally have count: "count_list (fst (ffff a)) ?x = sum_list (map ?n (refsByDef a))" .
  have "2 \<le> sum_list (map ?n (refsByDef a))"
    if "e1 \<in> set (refsByDef a)" "e2 \<in> set (refsByDef a)" "fst e1 \<noteq> fst e2" "1 \<le> ?n e1" "1 \<le> ?n e2"
    for e1 e2
    using that(1,2) _ that(4,5) by (rule sum_list_two) (use that(3) in auto)
  then show ?thesis
    unfolding count by auto
qed

theorem package_vertex_once_per_group_witness:
  "snd (ffff example_args) = None
   \<and> count_list (fst (ffff example_args))
        (V_packageInformation ''package:pkg'' ''cpp'' ''pkg'' ''1.0'') = 2"
proof -
  have ok: "snd (ffff example_args) = None" by (rule example_args_ok)
  from package_vertex_once_per_group [OF ok, of "''pkg''"]
  have "count_list (fst (ffff example_args))
          (V_packageInformation (''package:'' @ ''pkg'') ''cpp'' ''pkg'' ''1.0'') =
        sum_list (map (\<lambda>entry.
             (if map_option packageInformation
                   (map_of (importMonikerByRange example_args) (fst entry)) = Some ''pkg''
              then 1 else 0)
             + (if map_option packageInformation
                     (map_of (exportMonikerByRange example_args) (fst entry)) = Some ''pkg''
                then 1 else (0::nat))) (refsByDef example_args))"
    by (rule conjunct1)
  also have "\<dots> = 2" by (simp add: example_args_def)
  finally have "count_list (fst (ffff example_args))
          (V_packageInformation ''package:pkg'' ''cpp'' ''pkg'' ''1.0'') = 2"
    by simp
  with ok show ?thesis by blast
qed

section \<open>Where an item comes from\<close>

text \<open>What a run may have emitted when it was stopped by an error.\<close>

lemma emitDocsEnd_kind: "x \<in> set (fst (emitDocsEnd ds rbd)) \<Longrightarrow> is_E_contains x \<or> is_V_event x"
proof -
  assume "x \<in> set (fst (emitDocsEnd ds rbd))"
  then obtain doc where "x \<in> set (fst (case map_of rbd doc of
         None \<Rightarrow> throw (LookupError doc)
       | Some ranges \<Rightarrow>
           seqs [
             emit (E_contains (''contains:'' @ doc) (''document:'' @ doc) ranges),
             emit (V_event (''documentEnd:'' @ doc) (''document:'' @ doc)
                     EventKind_end EventScope_document)]))"
    using for_each_subset unfolding emitDocsEnd_def by fastforce
  then show ?thesis
    by (cases "map_of rbd doc") (auto simp: throw_def emit_def)
qed

lemma ffff_member:
  assumes "x \<in> set (fst (ffff a))"
  shows "is_V_metaData x \<or> is_V_project x \<or> is_V_event x \<or> is_V_document x \<or> is_V_range x
       \<or> is_E_contains x
       \<or> (\<exists>entry\<in>set (refsByDef a). x \<in> set (fst (emitDefsRefsHovers_entry (hoverByDef a)
             (locByRange a) (importMonikerByRange a) (exportMonikerByRange a) entry)))"
proof -
  let ?es = "[
       emit (makeMeta (root a) (inFileGlob a)),
       emit makeProject,
       emit makeProjectBegin,
       for_each (emitDocsBegin (root a)) (docs a),
       for_each (\<lambda>range.
         case map_of (locByRange a) range of
           None \<Rightarrow> throw (LookupError range)
         | Some loc \<Rightarrow> emit (makeRange loc)) (map fst (locByRange a)),
       emitDefsRefsHovers (refsByDef a) (hoverByDef a) (locByRange a)
         (importMonikerByRange a) (exportMonikerByRange a),
       emitDocsEnd (docs a) (rangesByDoc a),
       emit (E_contains ''projectContains'' ''project''
               (map (\<lambda>doc. ''document:'' @ doc) (docs a))),
       emit makeProjectEnd]"
  have "ffff a = seqs ?es" by (simp only: ffff_def)
  with assms seqs_subset [of ?es] have "x \<in> (\<Union>e\<in>set ?es. set (fst e))" by auto
  then have "x = makeMeta (root a) (inFileGlob a) \<or> x = makeProject \<or> x = makeProjectBegin
     \<or> x \<in> set (fst (for_each (emitDocsBegin (root a)) (docs a)))
     \<or> x \<in> set (map (\<lambda>range. makeRange (the (map_of (locByRange a) range))) (map fst (locByRange a)))
     \<or> x \<in> set (fst (emitDefsRefsHovers (refsByDef a) (hoverByDef a) (locByRange a)
         (importMonikerByRange a) (exportMonikerByRange a)))
     \<or> x \<in> set (fst (emitDocsEnd (docs a) (rangesByDoc a)))
     \<or> x = E_contains ''projectContains'' ''project'' (map (\<lambda>doc. ''document:'' @ doc) (docs a))
     \<or> x = makeProjectEnd"
    by (simp only: list.set UN_insert UN_empty fst_emit ranges_loop fst_conv Un_iff
        insert_iff empty_iff Un_empty_right) blast
  moreover have "x \<in> set (fst (for_each (emitDocsBegin (root a)) (docs a)))
      \<Longrightarrow> is_V_document x \<or> is_V_event x"
    by (auto simp: for_each_docsBegin)
  moreover have "x \<in> set (fst (emitDefsRefsHovers (refsByDef a) (hoverByDef a) (locByRange a)
         (importMonikerByRange a) (exportMonikerByRange a)))
      \<Longrightarrow> \<exists>entry\<in>set (refsByDef a). x \<in> set (fst (emitDefsRefsHovers_entry (hoverByDef a)
             (locByRange a) (importMonikerByRange a) (exportMonikerByRange a) entry))"
    using for_each_subset unfolding emitDefsRefsHovers_def by fastforce
  moreover have "x \<in> set (map (\<lambda>range. makeRange (the (map_of (locByRange a) range))) (map fst (locByRange a)))
      \<Longrightarrow> is_V_range x"
    by (auto simp: makeRange_def)
  ultimately show ?thesis
    using emitDocsEnd_kind [of x "docs a" "rangesByDoc a"]
    by (auto simp: makeMeta_def makeProject_def makeProjectBegin_def makeProjectEnd_def)
qed

lemma import_or_definition_kind:
  "x \<in> set (fst (case mi of Some m \<Rightarrow> emitImportMoniker d m | None \<Rightarrow> emitDefinitionResult d defLoc))
   \<Longrightarrow> is_V_moniker x \<or> is_E_moniker x \<or> is_V_packageInformation x \<or> is_E_packageInformation x
       \<or> is_V_definitionResult x \<or> is_E_textDocument_definition x
       \<or> (\<exists>doc. x = E_item (''item:textDocument/definition:'' @ d) (''definition:'' @ d) [d] None doc)"
  by (cases mi) (auto simp: emitImportMoniker_eq emitDefinitionResult_eq)

lemma definitions_item_kind:
  "x \<in> set (fst (case mi of Some m \<Rightarrow> seqs [] | None \<Rightarrow> emit (E_item i ov ivs pr doc)))
   \<Longrightarrow> x = E_item i ov ivs pr doc"
  by (cases mi) (auto simp: emit_def)

lemma export_kind:
  "x \<in> set (fst (case me of Some m \<Rightarrow> emitExportMoniker d m | None \<Rightarrow> seqs []))
   \<Longrightarrow> is_V_moniker x \<or> is_E_moniker x \<or> is_V_packageInformation x \<or> is_E_packageInformation x"
  by (cases me) (auto simp: emitExportMoniker_eq)

lemma entry_member:
  assumes "x \<in> set (fst (emitDefsRefsHovers_entry H L I E (d, refs)))"
  shows "map_of L d \<noteq> None \<and>
     (x = V_resultSet (''resultSet:'' @ d)
      \<or> (\<exists>ref\<in>set (d # refs). x = E_next (''next:'' @ ref) ref (''resultSet:'' @ d))
      \<or> x \<in> set (fst (emitHover d (map_of H d)))
      \<or> (\<exists>doc. x = E_item (''item:textDocument/definition:'' @ d) (''definition:'' @ d) [d]
                    None doc)
      \<or> (\<exists>doc. x = E_item (''item:textDocument/references:definitions:'' @ d)
                    (''reference:'' @ d) [d] (Some ItemEdgeProperties_definitions) doc)
      \<or> x \<in> set (fst (emitReferenceItems d refs))
      \<or> is_V_moniker x \<or> is_E_moniker x \<or> is_V_packageInformation x
      \<or> is_E_packageInformation x \<or> is_V_definitionResult x \<or> is_E_textDocument_definition x
      \<or> is_V_referenceResult x \<or> is_E_textDocument_references x)"
proof (cases "map_of L d")
  case None
  with assms show ?thesis
    by (simp add: emitDefsRefsHovers_entry_def throw_def)
next
  case (Some defLoc)
  let ?e1 = "emit (V_resultSet (''resultSet:'' @ d))"
  let ?e2 = "emit (E_next (''next:'' @ d) d (''resultSet:'' @ d))"
  let ?e3 = "(case map_of I d of
               Some importMoniker \<Rightarrow> emitImportMoniker d importMoniker
             | None \<Rightarrow> emitDefinitionResult d defLoc)"
  let ?e4 = "emitHover d (map_of H d)"
  let ?e5 = "emit (V_referenceResult (''reference:'' @ d))"
  let ?e6 = "emit (E_textDocument_references (''textDocument/references:'' @ d)
                    (''resultSet:'' @ d) (''reference:'' @ d))"
  let ?e7 = "(case map_of I d of
               Some importMoniker \<Rightarrow> seqs []
             | None \<Rightarrow>
                 emit (E_item (''item:textDocument/references:definitions:'' @ d)
                         (''reference:'' @ d) [d] (Some ItemEdgeProperties_definitions)
                         (''document:'' @ Location.uri defLoc)))"
  let ?e8 = "for_each (\<lambda>ref.
              emit (E_next (''next:'' @ ref) ref (''resultSet:'' @ d))) refs"
  let ?e9 = "emitReferenceItems d refs"
  let ?e10 = "(case map_of E d of
               Some exportMoniker \<Rightarrow> emitExportMoniker d exportMoniker
             | None \<Rightarrow> seqs [])"
  let ?es = "[?e1, ?e2, ?e3, ?e4, ?e5, ?e6, ?e7, ?e8, ?e9, ?e10]"
  have eq: "emitDefsRefsHovers_entry H L I E (d, refs) = seqs ?es"
    using Some by (simp only: emitDefsRefsHovers_entry_def Let_def fst_conv snd_conv option.case)
  with assms seqs_subset [of ?es] have "x \<in> (\<Union>e\<in>set ?es. set (fst e))" by auto
  then have m: "x \<in> set (fst ?e1) \<or> x \<in> set (fst ?e2) \<or> x \<in> set (fst ?e3) \<or> x \<in> set (fst ?e4)
      \<or> x \<in> set (fst ?e5) \<or> x \<in> set (fst ?e6) \<or> x \<in> set (fst ?e7) \<or> x \<in> set (fst ?e8)
      \<or> x \<in> set (fst ?e9) \<or> x \<in> set (fst ?e10)"
    by (simp only: list.set UN_insert UN_empty Un_iff Un_empty_right)
  have 1: "x \<in> set (fst ?e1) \<Longrightarrow> x = V_resultSet (''resultSet:'' @ d)"
    by (simp add: emit_def)
  have 2: "x \<in> set (fst ?e2) \<Longrightarrow> \<exists>ref\<in>set (d # refs). x = E_next (''next:'' @ ref) ref (''resultSet:'' @ d)"
    by (simp add: emit_def)
  have 3: "x \<in> set (fst ?e3) \<Longrightarrow> is_V_moniker x \<or> is_E_moniker x \<or> is_V_packageInformation x \<or> is_E_packageInformation x
       \<or> is_V_definitionResult x \<or> is_E_textDocument_definition x
       \<or> (\<exists>doc. x = E_item (''item:textDocument/definition:'' @ d) (''definition:'' @ d) [d] None doc)"
    by (rule import_or_definition_kind)
  have 5: "x \<in> set (fst ?e5) \<Longrightarrow> is_V_referenceResult x"
    by (simp add: emit_def)
  have 6: "x \<in> set (fst ?e6) \<Longrightarrow> is_E_textDocument_references x"
    by (simp add: emit_def)
  have 7: "x \<in> set (fst ?e7) \<Longrightarrow> \<exists>doc. x = E_item (''item:textDocument/references:definitions:'' @ d)
                    (''reference:'' @ d) [d] (Some ItemEdgeProperties_definitions) doc"
    by (drule definitions_item_kind) blast
  have 8: "x \<in> set (fst ?e8) \<Longrightarrow> \<exists>ref\<in>set (d # refs). x = E_next (''next:'' @ ref) ref (''resultSet:'' @ d)"
    by (auto simp: for_each_emit)
  have 10: "x \<in> set (fst ?e10) \<Longrightarrow> is_V_moniker x \<or> is_E_moniker x \<or> is_V_packageInformation x \<or> is_E_packageInformation x"
    by (rule export_kind)
  have "map_of L d \<noteq> None" using Some by simp
  then show ?thesis using m 1 2 3 5 6 7 8 10 by blast
qed

lemma hover_kind:
  "is_V_hoverResult x \<or> is_E_textDocument_hover x \<Longrightarrow>
   \<not> is_V_resultSet x \<and> \<not> is_E_next x \<and> \<not> is_E_item x \<and> \<not> is_V_moniker x \<and> \<not> is_E_moniker x
   \<and> \<not> is_V_packageInformation x \<and> \<not> is_E_packageInformation x \<and> \<not> is_V_definitionResult x
   \<and> \<not> is_E_textDocument_definition x \<and> \<not> is_V_referenceResult x
   \<and> \<not> is_E_textDocument_references x \<and> \<not> is_V_metaData x \<and> \<not> is_V_project x
   \<and> \<not> is_V_event x \<and> \<not> is_V_document x \<and> \<not> is_V_range x \<and> \<not> is_E_contains x"
  by (cases x) simp_all

lemma entry_member_hover:
  assumes "x \<in> set (fst (emitDefsRefsHovers_entry H L I E (d, refs)))"
    and "is_V_hoverResult x \<or> is_E_textDocument_hover x"
  shows "x \<in> set (fst (emitHover d (map_of H d)))"
proof -
  note k = hover_kind [OF assms(2)]
  have "x \<noteq> V_resultSet s" "x \<noteq> E_next i ov iv" "x \<noteq> E_item i ov ivs pr doc" for s i ov iv ivs pr doc
    using k by auto
  then show ?thesis
    using entry_member [OF assms(1)] k emitReferenceItems_kind [of x d refs] by blast
qed

lemma ffff_member_hover:
  assumes "x \<in> set (fst (ffff a))" and "is_V_hoverResult x \<or> is_E_textDocument_hover x"
  shows "\<exists>entry\<in>set (refsByDef a). x \<in> set (fst (emitHover (fst entry) (map_of (hoverByDef a) (fst entry))))"
proof -
  from ffff_member [OF assms(1)] hover_kind [OF assms(2)]
  obtain entry where e: "entry \<in> set (refsByDef a)" "x \<in> set (fst (emitDefsRefsHovers_entry (hoverByDef a)
             (locByRange a) (importMonikerByRange a) (exportMonikerByRange a) entry))"
    by blast
  from e(2) have "x \<in> set (fst (emitDefsRefsHovers_entry (hoverByDef a)
             (locByRange a) (importMonikerByRange a) (exportMonikerByRange a) (fst entry, snd entry)))"
    by simp
  from entry_member_hover [OF this assms(2)] e(1) show ?thesis by blast
qed

lemma emitHover_member:
  "x \<in> set (fst (emitHover d ho)) \<Longrightarrow>
   \<exists>h. ho = Some h \<and> h \<noteq> []
     \<and> (x = V_hoverResult (''hover:'' @ d) h
        \<or> x = E_textDocument_hover (''textDocument/hover:'' @ d) (''resultSet:'' @ d)
              (''hover:'' @ d))"
  by (cases ho) (auto simp: emitHover_eq split: if_splits)

lemma entry_hover_subset:
  assumes "snd (emitDefsRefsHovers_entry H L I E (d, refs)) = None"
  shows "set (fst (emitHover d (map_of H d)))
           \<subseteq> set (fst (emitDefsRefsHovers_entry H L I E (d, refs)))"
proof -
  from entry_items [OF assms] obtain defLoc where
    items: "fst (emitDefsRefsHovers_entry H L I E (d, refs)) =
        [V_resultSet (''resultSet:'' @ d), E_next (''next:'' @ d) d (''resultSet:'' @ d)]
        @ fst (case map_of I d of
                 Some m \<Rightarrow> emitImportMoniker d m
               | None \<Rightarrow> emitDefinitionResult d defLoc)
        @ fst (emitHover d (map_of H d))
        @ [V_referenceResult (''reference:'' @ d),
           E_textDocument_references (''textDocument/references:'' @ d) (''resultSet:'' @ d)
             (''reference:'' @ d)]
        @ fst (case map_of I d of
                 Some m \<Rightarrow> seqs []
               | None \<Rightarrow>
                   emit (E_item (''item:textDocument/references:definitions:'' @ d)
                     (''reference:'' @ d) [d] (Some ItemEdgeProperties_definitions)
                     (''document:'' @ Location.uri defLoc)))
        @ map (\<lambda>ref. E_next (''next:'' @ ref) ref (''resultSet:'' @ d)) refs
        @ fst (emitReferenceItems d refs)
        @ fst (case map_of E d of Some m \<Rightarrow> emitExportMoniker d m | None \<Rightarrow> seqs [])"
    by blast
  show ?thesis unfolding items by (simp only: set_append) blast
qed

text \<open>
  C10. A hover-result vertex or a hover edge is emitted for a definition only when a
  non-empty hover text is recorded against it. With no hover text or with the empty
  string, no run, finished or stopped by an error, has emitted \<open>hover:d\<close> or
  \<open>textDocument/hover:d\<close>; with a non-empty text, a run that ends without an error has
  emitted both, for every definition group.
\<close>

theorem hover_only_for_non_empty_text:
  "(map_of (hoverByDef a) d = None \<or> map_of (hoverByDef a) d = Some [] \<longrightarrow>
      V_hoverResult (''hover:'' @ d) h \<notin> set (fst (ffff a))
    \<and> E_textDocument_hover (''textDocument/hover:'' @ d) ov iv \<notin> set (fst (ffff a)))
   \<and> (V_hoverResult i h \<in> set (fst (ffff a)) \<longrightarrow>
        h \<noteq> [] \<and> (\<exists>d'. i = ''hover:'' @ d' \<and> map_of (hoverByDef a) d' = Some h))
   \<and> (snd (ffff a) = None \<and> (d, refs) \<in> set (refsByDef a)
        \<and> map_of (hoverByDef a) d = Some h \<and> h \<noteq> [] \<longrightarrow>
        V_hoverResult (''hover:'' @ d) h \<in> set (fst (ffff a))
      \<and> E_textDocument_hover (''textDocument/hover:'' @ d) (''resultSet:'' @ d) (''hover:'' @ d)
          \<in> set (fst (ffff a)))"
proof (intro conjI impI)
  have v: "h' \<noteq> [] \<and> (\<exists>d'. i' = ''hover:'' @ d' \<and> map_of (hoverByDef a) d' = Some h')"
    if "V_hoverResult i' h' \<in> set (fst (ffff a))" for i' h'
  proof -
    from ffff_member_hover [OF that] obtain entry where
      "V_hoverResult i' h' \<in> set (fst (emitHover (fst entry) (map_of (hoverByDef a) (fst entry))))"
      by auto
    from emitHover_member [OF this] show ?thesis by auto
  qed
  have e: "\<exists>d' h'. i' = ''textDocument/hover:'' @ d' \<and> map_of (hoverByDef a) d' = Some h' \<and> h' \<noteq> []"
    if "E_textDocument_hover i' ov' iv' \<in> set (fst (ffff a))" for i' ov' iv'
  proof -
    from ffff_member_hover [OF that] obtain entry where
      "E_textDocument_hover i' ov' iv'
         \<in> set (fst (emitHover (fst entry) (map_of (hoverByDef a) (fst entry))))"
      by auto
    from emitHover_member [OF this] show ?thesis by auto
  qed
  {
    assume none: "map_of (hoverByDef a) d = None \<or> map_of (hoverByDef a) d = Some []"
    show "V_hoverResult (''hover:'' @ d) h \<notin> set (fst (ffff a))"
      using v [of "''hover:'' @ d" h] none by auto
    show "E_textDocument_hover (''textDocument/hover:'' @ d) ov iv \<notin> set (fst (ffff a))"
      using e [of "''textDocument/hover:'' @ d" ov iv] none by auto
  }
  {
    assume "V_hoverResult i h \<in> set (fst (ffff a))"
    from v [OF this] show "h \<noteq> []" and "\<exists>d'. i = ''hover:'' @ d' \<and> map_of (hoverByDef a) d' = Some h"
      by auto
  }
  {
    assume a: "snd (ffff a) = None \<and> (d, refs) \<in> set (refsByDef a)
        \<and> map_of (hoverByDef a) d = Some h \<and> h \<noteq> []"
    then have ok: "snd (ffff a) = None" and m: "(d, refs) \<in> set (refsByDef a)"
      and hv: "map_of (hoverByDef a) d = Some h" "h \<noteq> []" by auto
    let ?entry = "emitDefsRefsHovers_entry (hoverByDef a) (locByRange a)
                  (importMonikerByRange a) (exportMonikerByRange a)"
    from ffff_contains_entry [OF ok m] have sub: "set (fst (?entry (d, refs))) \<subseteq> set (fst (ffff a))"
      by auto
    have "set (fst (emitHover d (map_of (hoverByDef a) d))) \<subseteq> set (fst (?entry (d, refs)))"
      using ffff_entry_ok [OF ok m] by (rule entry_hover_subset)
    with sub have s: "set (fst (emitHover d (Some h))) \<subseteq> set (fst (ffff a))"
      using hv by simp
    have "fst (emitHover d (Some h)) = [V_hoverResult (''hover:'' @ d) h,
             E_textDocument_hover (''textDocument/hover:'' @ d) (''resultSet:'' @ d)
               (''hover:'' @ d)]"
      using hv by (simp add: emitHover_eq)
    with s show "V_hoverResult (''hover:'' @ d) h \<in> set (fst (ffff a))"
      and "E_textDocument_hover (''textDocument/hover:'' @ d) (''resultSet:'' @ d) (''hover:'' @ d)
          \<in> set (fst (ffff a))"
      by auto
  }
qed

theorem hover_only_for_non_empty_text_witness:
  "map_of (hoverByDef example_args) ''a:5:2'' = Some []
   \<and> V_hoverResult ''hover:a:5:2'' [] \<notin> set (fst (ffff example_args))
   \<and> E_textDocument_hover ''textDocument/hover:a:5:2'' ''resultSet:a:5:2'' ''hover:a:5:2''
        \<notin> set (fst (ffff example_args))
   \<and> map_of (hoverByDef example_args) ''a:0:0'' = Some ''int''
   \<and> V_hoverResult ''hover:a:0:0'' ''int'' \<in> set (fst (ffff example_args))
   \<and> E_textDocument_hover ''textDocument/hover:a:0:0'' ''resultSet:a:0:0'' ''hover:a:0:0''
        \<in> set (fst (ffff example_args))"
proof -
  have ok: "snd (ffff example_args) = None" by (rule example_args_ok)
  have 1: "map_of (hoverByDef example_args) ''a:5:2'' = Some []"
    by (simp add: example_args_def)
  have 2: "map_of (hoverByDef example_args) ''a:0:0'' = Some ''int''"
    by (simp add: example_args_def)
  have 3: "(''a:0:0'', [''b:1:0'', ''a:0:0'']) \<in> set (refsByDef example_args)"
    by (simp add: example_args_def)
  from hover_only_for_non_empty_text [of example_args "''a:5:2''" "[]" "''resultSet:a:5:2''"
      "''hover:a:5:2''" "''x''" "[]"] 1
  have n: "V_hoverResult (''hover:'' @ ''a:5:2'') [] \<notin> set (fst (ffff example_args))
    \<and> E_textDocument_hover (''textDocument/hover:'' @ ''a:5:2'') ''resultSet:a:5:2'' ''hover:a:5:2''
        \<notin> set (fst (ffff example_args))"
    by blast
  from hover_only_for_non_empty_text [of example_args "''a:0:0''" "''int''" "[]" "[]" "[]"
      "[''b:1:0'', ''a:0:0'']"] ok 2 3
  have p: "V_hoverResult (''hover:'' @ ''a:0:0'') ''int'' \<in> set (fst (ffff example_args))
      \<and> E_textDocument_hover (''textDocument/hover:'' @ ''a:0:0'') (''resultSet:'' @ ''a:0:0'')
           (''hover:'' @ ''a:0:0'') \<in> set (fst (ffff example_args))"
    by blast
  from n p 1 2 show ?thesis by simp
qed

section \<open>The order of iteration\<close>














section \<open>Parsing a location string\<close>

lemma split_location:
  assumes "CHR '':'' \<notin> set l" "CHR '':'' \<notin> set c"
  shows "split CHR '':'' (p @ CHR '':'' # l @ CHR '':'' # c) = split CHR '':'' p @ [l, c]"
proof -
  have "split CHR '':'' (l @ CHR '':'' # c) = [l, c]"
    using assms by (simp add: split_append split_notin)
  then show ?thesis by (simp add: split_append)
qed

lemma parseFilePosition_location:
  assumes "CHR '':'' \<notin> set l" "CHR '':'' \<notin> set c"
  shows "parseFilePosition (p @ '':'' @ l @ '':'' @ c) =
    Inr \<lparr>FilePosition.uri = filter (\<lambda>x. x \<noteq> CHR '':'') p,
         position = \<lparr>Position.line = parseInt l, character = parseInt c\<rparr>\<rparr>"
proof -
  have s: "split CHR '':'' (p @ '':'' @ l @ '':'' @ c) = split CHR '':'' p @ [l, c]"
    using split_location [OF assms] by simp
  show ?thesis
    unfolding parseFilePosition_def s
    by (simp add: Let_def nth_append concat_split split_nonempty)
qed

lemma parseFilePosition_stringify:
  "parseFilePosition (stringifyLocation loc) =
     Inr \<lparr>FilePosition.uri = filter (\<lambda>x. x \<noteq> CHR '':'') (Location.uri loc),
          position = \<lparr>Position.line = parseInt (Number_toString (Position.line (lsp_Range.start (range' loc)))),
                      character = parseInt (Number_toString (character (lsp_Range.start (range' loc))))\<rparr>\<rparr>"
  unfolding stringifyLocation_def
  by (rule parseFilePosition_location) (rule Number_toString_no_colon)+

text \<open>
  C9. A location whose line and column are natural numbers below \<open>10^21\<close> is printed by
  \<open>stringifyLocation\<close> and read back by \<open>parseFilePosition\<close> with its start position
  unchanged and its path with every \<open>:\<close> deleted: the round trip is exact when the path has
  no \<open>:\<close>, and loses the path when it has one. The line and the column are numbers of
  the language, that is doubles: \<open>roundDouble l = l\<close>, which holds for every natural
  number below \<open>2^53\<close> (lemma \<open>roundDouble_exact\<close>).
\<close>

theorem parseFilePosition_stringifyLocation_roundtrip:
  assumes "Position.line (lsp_Range.start (range' loc)) = Num (int l)"
    and "character (lsp_Range.start (range' loc)) = Num (int c)"
    and "l < 10 ^ 21" and "roundDouble l = l"
    and "c < 10 ^ 21" and "roundDouble c = c"
  shows "(CHR '':'' \<notin> set (Location.uri loc) \<longrightarrow>
            parseFilePosition (stringifyLocation loc) =
              Inr \<lparr>FilePosition.uri = Location.uri loc,
                   position = lsp_Range.start (range' loc)\<rparr>)
       \<and> (CHR '':'' \<in> set (Location.uri loc) \<longrightarrow>
            parseFilePosition (stringifyLocation loc) =
              Inr \<lparr>FilePosition.uri = filter (\<lambda>x. x \<noteq> CHR '':'') (Location.uri loc),
                   position = lsp_Range.start (range' loc)\<rparr>
            \<and> parseFilePosition (stringifyLocation loc) \<noteq>
              Inr \<lparr>FilePosition.uri = Location.uri loc,
                   position = lsp_Range.start (range' loc)\<rparr>)"
proof -
  have l: "parseInt (Number_toString (Num (int l))) = Num (int l)"
    using assms(3,4) by (intro parseInt_Number_toString) simp_all
  have c: "parseInt (Number_toString (Num (int c))) = Num (int c)"
    using assms(5,6) by (intro parseInt_Number_toString) simp_all
  have pos: "\<lparr>Position.line = parseInt (Number_toString (Position.line (lsp_Range.start (range' loc)))),
              character = parseInt (Number_toString (character (lsp_Range.start (range' loc))))\<rparr>
             = lsp_Range.start (range' loc)"
    using assms(1,2) l c by simp
  have p: "parseFilePosition (stringifyLocation loc) =
     Inr \<lparr>FilePosition.uri = filter (\<lambda>x. x \<noteq> CHR '':'') (Location.uri loc),
          position = lsp_Range.start (range' loc)\<rparr>"
    using parseFilePosition_stringify [of loc] pos by simp
  have keep: "CHR '':'' \<notin> set (Location.uri loc) \<Longrightarrow>
      filter (\<lambda>x. x \<noteq> CHR '':'') (Location.uri loc) = Location.uri loc"
    by (rule filter_True) auto
  have lose: "CHR '':'' \<in> set (Location.uri loc) \<Longrightarrow>
      filter (\<lambda>x. x \<noteq> CHR '':'') (Location.uri loc) \<noteq> Location.uri loc"
    by (auto simp: filter_id_conv)
  show ?thesis using p keep lose by simp
qed

theorem parseFilePosition_stringifyLocation_roundtrip_witness:
  "parseFilePosition (stringifyLocation
      \<lparr>Location.uri = ''src/a.ml'',
       range' = \<lparr>lsp_Range.start = \<lparr>Position.line = Num 12, character = Num 3\<rparr>,
                 lsp_Range.end' = \<lparr>Position.line = Num 12, character = Num 9\<rparr>\<rparr>\<rparr>)
     = Inr \<lparr>FilePosition.uri = ''src/a.ml'',
            position = \<lparr>Position.line = Num 12, character = Num 3\<rparr>\<rparr>
   \<and> parseFilePosition (stringifyLocation
      \<lparr>Location.uri = ''c:a.ml'',
       range' = \<lparr>lsp_Range.start = \<lparr>Position.line = Num 9007199254740994, character = Num 3\<rparr>,
                 lsp_Range.end' = \<lparr>Position.line = Num 9007199254740994, character = Num 9\<rparr>\<rparr>\<rparr>)
     = Inr \<lparr>FilePosition.uri = ''ca.ml'',
            position = \<lparr>Position.line = Num 9007199254740994, character = Num 3\<rparr>\<rparr>"
proof -
  have r: "roundDouble 12 = 12" "roundDouble 3 = 3"
    "roundDouble 9007199254740994 = 9007199254740994"
    by (simp_all add: roundDouble_def Let_def)
  show ?thesis
    using parseFilePosition_stringifyLocation_roundtrip
      [of "\<lparr>Location.uri = ''src/a.ml'',
           range' = \<lparr>lsp_Range.start = \<lparr>Position.line = Num 12, character = Num 3\<rparr>,
                     lsp_Range.end' = \<lparr>Position.line = Num 12, character = Num 9\<rparr>\<rparr>\<rparr>" 12 3]
    parseFilePosition_stringifyLocation_roundtrip
      [of "\<lparr>Location.uri = ''c:a.ml'',
           range' = \<lparr>lsp_Range.start = \<lparr>Position.line = Num 9007199254740994, character = Num 3\<rparr>,
                     lsp_Range.end' = \<lparr>Position.line = Num 9007199254740994, character = Num 9\<rparr>\<rparr>\<rparr>"
          9007199254740994 3]
    r by simp
qed

text \<open>
  The bound is needed. The number \<open>10^21\<close> is a double and a natural number; it is
  printed as \<open>1e+21\<close>, and \<open>parseInt\<close> reads the line 1 from that.
\<close>

theorem parseFilePosition_stringifyLocation_large_counterexample:
  "roundDouble (10 ^ 21) = 10 ^ 21
   \<and> stringifyLocation
      \<lparr>Location.uri = ''a'',
       range' = \<lparr>lsp_Range.start = \<lparr>Position.line = Num (10 ^ 21), character = Num 0\<rparr>,
                 lsp_Range.end' = \<lparr>Position.line = Num (10 ^ 21), character = Num 1\<rparr>\<rparr>\<rparr>
     = ''a:1e+21:0''
   \<and> parseFilePosition (stringifyLocation
      \<lparr>Location.uri = ''a'',
       range' = \<lparr>lsp_Range.start = \<lparr>Position.line = Num (10 ^ 21), character = Num 0\<rparr>,
                 lsp_Range.end' = \<lparr>Position.line = Num (10 ^ 21), character = Num 1\<rparr>\<rparr>\<rparr>)
     = Inr \<lparr>FilePosition.uri = ''a'',
            position = \<lparr>Position.line = Num 1, character = Num 0\<rparr>\<rparr>"
proof -
  have z: "Number_toString (Num 0) = ''0''" by code_simp
  have s: "stringifyLocation
      \<lparr>Location.uri = ''a'',
       range' = \<lparr>lsp_Range.start = \<lparr>Position.line = Num (10 ^ 21), character = Num 0\<rparr>,
                 lsp_Range.end' = \<lparr>Position.line = Num (10 ^ 21), character = Num 1\<rparr>\<rparr>\<rparr>
     = ''a:1e+21:0''"
    by (simp add: stringifyLocation_def n21 z)
  have p: "parseFilePosition ''a:1e+21:0'' =
     Inr \<lparr>FilePosition.uri = ''a'',
          position = \<lparr>Position.line = Num 1, character = Num 0\<rparr>\<rparr>"
    by code_simp
  show ?thesis using r21 s p by simp
qed

section \<open>Grouping the references\<close>

lemma update_split:
  "map_of r k = Some ys \<Longrightarrow>
   \<exists>as bs. r = as @ (k, ys) # bs \<and> AList.update k z r = as @ (k, z) # bs"
proof (induction r)
  case Nil
  then show ?case by simp
next
  case (Cons p r)
  show ?case
  proof (cases "fst p = k")
    case True
    with Cons.prems have "p = (k, ys)" by (cases p) auto
    then have "p # r = [] @ (k, ys) # r \<and> AList.update k z (p # r) = [] @ (k, z) # r"
      by simp
    then show ?thesis by blast
  next
    case False
    with Cons.prems have "map_of r k = Some ys" by (cases p) auto
    from Cons.IH [OF this] obtain as bs where
      "r = as @ (k, ys) # bs" "AList.update k z r = as @ (k, z) # bs" by blast
    with False have "p # r = (p # as) @ (k, ys) # bs
        \<and> AList.update k z (p # r) = (p # as) @ (k, z) # bs"
      by (cases p) auto
    then show ?thesis by blast
  qed
qed

lemma groupBy_loop_ok_iff:
  "(\<exists>r'. groupBy_loop vs it r = Inr r') \<longleftrightarrow> (\<forall>v\<in>set vs. \<exists>k. it v = Inr k)"
proof (induction vs arbitrary: r)
  case Nil
  then show ?case by simp
next
  case (Cons v vs)
  show ?case
  proof (cases "it v")
    case (Inl e)
    then show ?thesis by auto
  next
    case (Inr key)
    then show ?thesis using Cons.IH by simp
  qed
qed

lemma groupBy_loop_inv:
  assumes "groupBy_loop vs it r = Inr r'"
    and "distinct (map fst r)"
    and "\<forall>p\<in>set r. snd p \<noteq> [] \<and> (\<forall>y\<in>set (snd p). it y = Inr (fst p))"
  shows "distinct (map fst r')
       \<and> (\<forall>p\<in>set r'. snd p \<noteq> [] \<and> (\<forall>y\<in>set (snd p). it y = Inr (fst p)))
       \<and> (\<forall>x. count_list (concat (map snd r')) x
                = count_list (concat (map snd r)) x + count_list vs x)"
  using assms
proof (induction vs arbitrary: r)
  case Nil
  then show ?case by simp
next
  case (Cons v vs)
  from Cons.prems(1) obtain key where key: "it v = Inr key"
    by (cases "it v") auto
  let ?r1 = "case map_of r key of
               Some ys \<Rightarrow> AList.update key (ys @ [v]) r
             | None \<Rightarrow> r @ [(key, [v])]"
  from Cons.prems(1) key have loop: "groupBy_loop vs it ?r1 = Inr r'" by simp
  have step: "distinct (map fst ?r1)
       \<and> (\<forall>p\<in>set ?r1. snd p \<noteq> [] \<and> (\<forall>y\<in>set (snd p). it y = Inr (fst p)))
       \<and> (\<forall>x. count_list (concat (map snd ?r1)) x
                = count_list (concat (map snd r)) x + count_list [v] x)"
  proof (cases "map_of r key")
    case None
    then have "key \<notin> fst ` set r" by (simp add: map_of_eq_None_iff)
    with None Cons.prems(2,3) key show ?thesis by auto
  next
    case (Some ys)
    from update_split [OF Some, of "ys @ [v]"] obtain as bs where
      r: "r = as @ (key, ys) # bs" and u: "AList.update key (ys @ [v]) r = as @ (key, ys @ [v]) # bs"
      by blast
    have d: "distinct (map fst (AList.update key (ys @ [v]) r))"
      using Cons.prems(2) by (rule distinct_update)
    have m: "\<forall>p\<in>set (as @ (key, ys @ [v]) # bs). snd p \<noteq> [] \<and> (\<forall>y\<in>set (snd p). it y = Inr (fst p))"
      using Cons.prems(3) key unfolding r by auto
    have c: "count_list (concat (map snd (as @ (key, ys @ [v]) # bs))) x
           = count_list (concat (map snd (as @ (key, ys) # bs))) x + count_list [v] x" for x
      by simp
    show ?thesis using Some d m c unfolding u [symmetric] r [symmetric]
      by (simp only: option.case) (use u r in auto)
  qed
  from Cons.IH [OF loop] step have
    "distinct (map fst r')
       \<and> (\<forall>p\<in>set r'. snd p \<noteq> [] \<and> (\<forall>y\<in>set (snd p). it y = Inr (fst p)))
       \<and> (\<forall>x. count_list (concat (map snd r')) x
                = count_list (concat (map snd ?r1)) x + count_list vs x)"
    by blast
  with step show ?case by auto
qed

lemma sum_list_insort_key:
  fixes h :: "'a \<Rightarrow> nat"
  shows "sum_list (map h (insort_key f a xs)) = h a + sum_list (map h xs)"
  by (induction xs) auto

lemma sum_list_sort_key:
  fixes h :: "'a \<Rightarrow> nat"
  shows "sum_list (map h (sort_key f xs)) = sum_list (map h xs)"
  by (induction xs) (auto simp: sum_list_insort_key)

lemma sum_list_filter_split:
  fixes h :: "'a \<Rightarrow> nat"
  shows "sum_list (map h (filter P xs)) + sum_list (map h (filter (\<lambda>x. \<not> P x) xs))
         = sum_list (map h xs)"
  by (induction xs) auto

lemma set_toPairs: "set (toPairs obj) = set obj"
  by (auto simp: toPairs_def)

lemma distinct_toPairs: "distinct (map fst obj) \<Longrightarrow> distinct (map fst (toPairs obj))"
proof -
  assume d: "distinct (map fst obj)"
  then have "distinct obj" and inj: "inj_on fst (set obj)"
    by (auto simp: distinct_map)
  then have "distinct (toPairs obj)"
    by (auto simp: toPairs_def)
  with inj show ?thesis by (simp add: distinct_map set_toPairs)
qed

lemma count_toPairs:
  "count_list (concat (map snd (toPairs obj))) x = count_list (concat (map snd obj)) x"
  unfolding count_list_concat_map toPairs_def
  by (simp add: sum_list_sort_key sum_list_filter_split)

lemma count_le_1_distinct: "(\<And>x. count_list xs x \<le> 1) \<Longrightarrow> distinct xs"
proof (induction xs)
  case Nil
  then show ?case by simp
next
  case (Cons a xs)
  have "count_list xs x \<le> 1" for x
    using Cons.prems [of x] by (auto split: if_splits)
  then have "distinct xs" by (rule Cons.IH)
  moreover have "a \<notin> set xs"
    using Cons.prems [of a] by (auto simp: count_list_0_iff)
  ultimately show ?case by simp
qed

lemma count_eq_set: "(\<And>x. count_list xs x = count_list ys x) \<Longrightarrow> set xs = set ys"
proof -
  assume a: "\<And>x. count_list xs x = count_list ys x"
  have "x \<in> set xs \<longleftrightarrow> x \<in> set ys" for x
    using a [of x] count_list_0_iff [of xs x] count_list_0_iff [of ys x] by auto
  then show ?thesis by blast
qed

lemma parse_uri_ok_iff:
  "(\<exists>k. map_sum id FilePosition.uri (parseFilePosition ref) = Inr k)
     \<longleftrightarrow> 2 \<le> length (filter (\<lambda>x. x = CHR '':'') ref)"
  by (auto simp: parseFilePosition_def length_split Let_def)

lemma emitReferenceItems_ok_iff:
  "snd (emitReferenceItems d refs) = None
     \<longleftrightarrow> (\<forall>ref\<in>set refs. 2 \<le> length (filter (\<lambda>x. x = CHR '':'') ref))"
proof -
  let ?it = "\<lambda>ref. map_sum id FilePosition.uri (parseFilePosition ref)"
  have "snd (emitReferenceItems d refs) = None \<longleftrightarrow> (\<exists>r'. groupBy refs ?it = Inr r')"
    by (cases "groupBy refs ?it")
       (simp_all add: emitReferenceItems_def throw_def for_each_emit)
  also have "\<dots> \<longleftrightarrow> (\<forall>ref\<in>set refs. \<exists>k. ?it ref = Inr k)"
    unfolding groupBy_def by (rule groupBy_loop_ok_iff)
  also have "\<dots> \<longleftrightarrow> (\<forall>ref\<in>set refs. 2 \<le> length (filter (\<lambda>x. x = CHR '':'') ref))"
    by (simp only: parse_uri_ok_iff)
  finally show ?thesis .
qed

text \<open>
  Block 10 partitions the references: when it ends without an error, the lists of its
  item edges hold every reference as often as the reference set does, no two edges have
  the same key, no list is empty, and the key of an edge is the path \<open>parseFilePosition\<close>
  reads from each of its ranges.
\<close>

lemma emitReferenceItems_partition:
  assumes "snd (emitReferenceItems d refs) = None"
  shows "\<exists>groups.
     fst (emitReferenceItems d refs) =
       map (\<lambda>pair. E_item (''item:textDocument/references:references:'' @ d @ '':'' @ fst pair)
              (''reference:'' @ d) (snd pair) (Some ItemEdgeProperties_references)
              (''document:'' @ fst pair)) groups
     \<and> distinct (map fst groups)
     \<and> (\<forall>x. count_list (concat (map snd groups)) x = count_list refs x)
     \<and> set (concat (map snd groups)) = set refs
     \<and> (distinct refs \<longrightarrow> distinct (concat (map snd groups)))
     \<and> (\<forall>p\<in>set groups. snd p \<noteq> []
          \<and> (\<forall>ref\<in>set (snd p). \<exists>fp. parseFilePosition ref = Inr fp \<and> FilePosition.uri fp = fst p))"
proof -
  let ?it = "\<lambda>ref. map_sum id FilePosition.uri (parseFilePosition ref)"
  from emitReferenceItems_ok [OF assms] obtain grouped where
    g: "groupBy refs ?it = Inr grouped"
    and items: "fst (emitReferenceItems d refs) =
       map (\<lambda>pair. E_item (''item:textDocument/references:references:'' @ d @ '':'' @ fst pair)
              (''reference:'' @ d) (snd pair) (Some ItemEdgeProperties_references)
              (''document:'' @ fst pair)) (toPairs grouped)"
    by blast
  from g have "groupBy_loop refs ?it [] = Inr grouped" by (simp add: groupBy_def)
  from groupBy_loop_inv [OF this] have
    d: "distinct (map fst grouped)"
    and m: "\<forall>p\<in>set grouped. snd p \<noteq> [] \<and> (\<forall>y\<in>set (snd p). ?it y = Inr (fst p))"
    and c: "\<And>x. count_list (concat (map snd grouped)) x = count_list refs x"
    by auto
  have c': "count_list (concat (map snd (toPairs grouped))) x = count_list refs x" for x
    using c [of x] by (simp add: count_toPairs)
  have s: "set (concat (map snd (toPairs grouped))) = set refs"
    using c' by (rule count_eq_set)
  have dd: "distinct (concat (map snd (toPairs grouped)))" if "distinct refs"
  proof (rule count_le_1_distinct)
    fix x
    show "count_list (concat (map snd (toPairs grouped))) x \<le> 1"
      using distinct_count_le_1 [OF that, of x] c' [of x] by simp
  qed
  have m': "\<forall>p\<in>set (toPairs grouped). snd p \<noteq> []
          \<and> (\<forall>ref\<in>set (snd p). \<exists>fp. parseFilePosition ref = Inr fp \<and> FilePosition.uri fp = fst p)"
  proof (intro ballI conjI)
    fix p assume p: "p \<in> set (toPairs grouped)"
    then have pg: "p \<in> set grouped" by (simp add: set_toPairs)
    with m show "snd p \<noteq> []" by blast
    fix ref assume "ref \<in> set (snd p)"
    with m pg have "?it ref = Inr (fst p)" by blast
    then show "\<exists>fp. parseFilePosition ref = Inr fp \<and> FilePosition.uri fp = fst p"
      by (cases "parseFilePosition ref") auto
  qed
  from items distinct_toPairs [OF d] c' s dd m' show ?thesis by blast
qed

section \<open>When a run ends without an error\<close>

lemma emitDocsEnd_ok_iff:
  "snd (emitDocsEnd ds rbd) = None \<longleftrightarrow> (\<forall>doc\<in>set ds. map_of rbd doc \<noteq> None)"
proof -
  have "snd (case map_of rbd doc of
         None \<Rightarrow> throw (LookupError doc)
       | Some ranges \<Rightarrow>
           seqs [
             emit (E_contains (''contains:'' @ doc) (''document:'' @ doc) ranges),
             emit (V_event (''documentEnd:'' @ doc) (''document:'' @ doc)
                     EventKind_end EventScope_document)]) = None \<longleftrightarrow> map_of rbd doc \<noteq> None" for doc
    by (cases "map_of rbd doc") (simp_all add: throw_def emit_def)
  then show ?thesis
    unfolding emitDocsEnd_def for_each_ok_iff by simp
qed

lemma entry_ok_iff:
  "snd (emitDefsRefsHovers_entry H L I E (d, refs)) = None
     \<longleftrightarrow> map_of L d \<noteq> None \<and> (\<forall>ref\<in>set refs. 2 \<le> length (filter (\<lambda>x. x = CHR '':'') ref))"
proof (cases "map_of L d")
  case None
  then show ?thesis by (simp add: emitDefsRefsHovers_entry_def throw_def)
next
  case (Some defLoc)
  let ?es = "[
            emit (V_resultSet (''resultSet:'' @ d)),
            emit (E_next (''next:'' @ d) d (''resultSet:'' @ d)),
            (case map_of I d of
               Some importMoniker \<Rightarrow> emitImportMoniker d importMoniker
             | None \<Rightarrow> emitDefinitionResult d defLoc),
            emitHover d (map_of H d),
            emit (V_referenceResult (''reference:'' @ d)),
            emit (E_textDocument_references (''textDocument/references:'' @ d)
                    (''resultSet:'' @ d) (''reference:'' @ d)),
            (case map_of I d of
               Some importMoniker \<Rightarrow> seqs []
             | None \<Rightarrow>
                 emit (E_item (''item:textDocument/references:definitions:'' @ d)
                         (''reference:'' @ d) [d] (Some ItemEdgeProperties_definitions)
                         (''document:'' @ Location.uri defLoc))),
            for_each (\<lambda>ref.
              emit (E_next (''next:'' @ ref) ref (''resultSet:'' @ d))) refs,
            emitReferenceItems d refs,
            (case map_of E d of
               Some exportMoniker \<Rightarrow> emitExportMoniker d exportMoniker
             | None \<Rightarrow> seqs [])]"
  have eq: "emitDefsRefsHovers_entry H L I E (d, refs) = seqs ?es"
    using Some by (simp only: emitDefsRefsHovers_entry_def Let_def fst_conv snd_conv option.case)
  have "snd (seqs ?es) = None \<longleftrightarrow> snd (emitReferenceItems d refs) = None"
    unfolding seqs_ok_iff
    by (simp only: list.set ball_simps snd_emit snd_import_or_definition snd_definitions_item
        snd_export emitHover_eq for_each_emit snd_conv) simp
  with eq Some show ?thesis by (simp add: emitReferenceItems_ok_iff)
qed

lemma ffff_ok_iff:
  "snd (ffff a) = None \<longleftrightarrow>
     (\<forall>entry\<in>set (refsByDef a). map_of (locByRange a) (fst entry) \<noteq> None
        \<and> (\<forall>ref\<in>set (snd entry). 2 \<le> length (filter (\<lambda>x. x = CHR '':'') ref)))
     \<and> (\<forall>doc\<in>set (docs a). map_of (rangesByDoc a) doc \<noteq> None)"
proof -
  let ?es = "[
       emit (makeMeta (root a) (inFileGlob a)),
       emit makeProject,
       emit makeProjectBegin,
       for_each (emitDocsBegin (root a)) (docs a),
       for_each (\<lambda>range.
         case map_of (locByRange a) range of
           None \<Rightarrow> throw (LookupError range)
         | Some loc \<Rightarrow> emit (makeRange loc)) (map fst (locByRange a)),
       emitDefsRefsHovers (refsByDef a) (hoverByDef a) (locByRange a)
         (importMonikerByRange a) (exportMonikerByRange a),
       emitDocsEnd (docs a) (rangesByDoc a),
       emit (E_contains ''projectContains'' ''project''
               (map (\<lambda>doc. ''document:'' @ doc) (docs a))),
       emit makeProjectEnd]"
  have eq: "ffff a = seqs ?es" by (simp only: ffff_def)
  have "snd (seqs ?es) = None \<longleftrightarrow>
      snd (emitDefsRefsHovers (refsByDef a) (hoverByDef a) (locByRange a)
         (importMonikerByRange a) (exportMonikerByRange a)) = None
      \<and> snd (emitDocsEnd (docs a) (rangesByDoc a)) = None"
    unfolding seqs_ok_iff
    by (simp only: list.set ball_simps snd_emit for_each_docsBegin ranges_loop snd_conv) simp
  moreover have "snd (emitDefsRefsHovers (refsByDef a) (hoverByDef a) (locByRange a)
         (importMonikerByRange a) (exportMonikerByRange a)) = None \<longleftrightarrow>
      (\<forall>entry\<in>set (refsByDef a). map_of (locByRange a) (fst entry) \<noteq> None
        \<and> (\<forall>ref\<in>set (snd entry). 2 \<le> length (filter (\<lambda>x. x = CHR '':'') ref)))"
    unfolding emitDefsRefsHovers_def for_each_ok_iff
    using entry_ok_iff [of "hoverByDef a" "locByRange a" "importMonikerByRange a"
        "exportMonikerByRange a"]
    by (metis prod.collapse)
  ultimately show ?thesis
    using eq by (simp add: emitDocsEnd_ok_iff)
qed

section \<open>Parse errors\<close>




















section \<open>Runs that break the invariants of the output\<close>

text \<open>
  C1. The test \<open>does not emit items with duplicate IDs\<close> of the repository asks for ids
  that are unique in a run. The input whose one line is its own definition runs to the
  end and emits the id \<open>next:a:0:0\<close> twice.
\<close>

theorem writeLSIF_duplicate_id:
  "snd (writeLSIF ''r'' ''r/*.lsif.in'' self_reference_input) = None
   \<and> count_list (map item_id (fst (writeLSIF ''r'' ''r/*.lsif.in'' self_reference_input)))
        ''next:a:0:0'' = 2
   \<and> \<not> distinct (map item_id (fst (writeLSIF ''r'' ''r/*.lsif.in'' self_reference_input)))"
  by code_simp

text \<open>
  C6. For the file \<open>a:b\<close> the index keeps the range under the key \<open>a:b:0:0\<close>, and the next
  edge and the containment edge name that key, but the range vertex gets its id from
  the parsed location, whose path has lost the colon: the run emits the range vertices
  \<open>ab:0:0\<close> and \<open>d:1:1\<close> and none with the id \<open>a:b:0:0\<close>.
\<close>

theorem writeLSIF_dangling_range:
  "snd (writeLSIF ''r'' ''r/*.lsif.in'' colon_path_input) = None
   \<and> E_next ''next:a:b:0:0'' ''a:b:0:0'' ''resultSet:d:1:1''
        \<in> set (fst (writeLSIF ''r'' ''r/*.lsif.in'' colon_path_input))
   \<and> E_contains ''contains:a:b'' ''document:a:b'' [''a:b:0:0'']
        \<in> set (fst (writeLSIF ''r'' ''r/*.lsif.in'' colon_path_input))
   \<and> map item_id (filter is_V_range (fst (writeLSIF ''r'' ''r/*.lsif.in'' colon_path_input)))
        = [''ab:0:0'', ''d:1:1'']"
  by code_simp

text \<open>
  C7. The lists of the item edges of block 10 always partition the references of the
  group, but an edge is tagged with the path read back from its ranges and not with
  the document that owns them. In the same run the only item edge tagged \<open>references\<close>
  holds the range \<open>a:b:0:0\<close> of the document \<open>a:b\<close> and is tagged with \<open>document:ab\<close>,
  which is no document of the run.
\<close>

theorem writeLSIF_reference_item_document:
  "snd (writeLSIF ''r'' ''r/*.lsif.in'' colon_path_input) = None
   \<and> filter (\<lambda>x. case x of E_item i ov ivs pr doc \<Rightarrow> pr = Some ItemEdgeProperties_references | _ \<Rightarrow> False)
        (fst (writeLSIF ''r'' ''r/*.lsif.in'' colon_path_input))
      = [E_item ''item:textDocument/references:references:d:1:1:ab'' ''reference:d:1:1''
           [''a:b:0:0''] (Some ItemEdgeProperties_references) ''document:ab'']
   \<and> map item_id (filter is_V_document (fst (writeLSIF ''r'' ''r/*.lsif.in'' colon_path_input)))
      = [''document:a:b'', ''document:d'']"
  by code_simp

end
